theory Spec2Isabelle
  imports Main
begin

section \<open>Device records (shared/schema.ts)\<close>

text \<open>
  A row of the \<open>devices\<close> table. Nullable columns are options; a JavaScript \<open>Date\<close> is
  its number of milliseconds since the epoch. The primary key column \<open>id\<close> is called
  \<open>id_col\<close> here, since \<open>id\<close> is the identity function of HOL.
\<close>

type_synonym date = nat

record device =
  id_col :: string
  name :: string
  ipAddress :: string
  macAddress :: "string option"
  deviceType :: string
  os :: "string option"
  description :: "string option"
  status :: string
  lastSeenAt :: "date option"
  lastCheckedAt :: "date option"

section \<open>The world the server runs in\<close>

text \<open>
  What a thrown JavaScript value can be in the code under study: a rejected database
  promise, or the error \<open>execSync\<close> throws (nonzero exit status, the \<open>timeout\<close> option
  expiring, or the child process failing to start).
\<close>

datatype exec_failure = NonZeroExit nat | TimedOut | SpawnFailed

datatype error = DbError string | ExecError exec_failure

text \<open>
  Everything the code cannot decide by itself is an oracle of the environment, indexed by
  the number of calls made so far, so that each call may behave differently:
  \<^item> \<open>execOracle k cmd timeout\<close>: what the \<open>k\<close>-th \<open>execSync\<close> call does;
  \<^item> \<open>dbFault k\<close>: whether the \<open>k\<close>-th database statement rejects, and with which message;
  \<^item> \<open>concurrent k\<close>: what the other request handlers did to the table between the
    previous \<open>await\<close> and the moment the \<open>k\<close>-th statement executes;
  \<^item> \<open>clockAt k\<close>: the value of the \<open>k\<close>-th \<open>new Date()\<close>;
  \<^item> \<open>newId k\<close>: the value \<open>gen_random_uuid()\<close> gives to a row inserted by statement \<open>k\<close>.
\<close>

record env =
  execOracle :: "nat \<Rightarrow> string \<Rightarrow> nat \<Rightarrow> exec_failure + string"
  dbFault :: "nat \<Rightarrow> string option"
  concurrent :: "nat \<Rightarrow> device list \<Rightarrow> device list"
  clockAt :: "nat \<Rightarrow> date"
  newId :: "nat \<Rightarrow> string"

text \<open>
  The mutable state: the table, the child processes spawned so far (command line and
  \<open>timeout\<close> option), the number of database statements and of clock readings so far, and
  the lines written to the console.
\<close>

record world =
  table :: "device list"
  execLog :: "(string \<times> nat) list"
  dbCalls :: nat
  dateCalls :: nat
  console :: "string list"

definition newDate :: "env \<Rightarrow> world \<Rightarrow> date \<times> world" where
  "newDate e w = (clockAt e (dateCalls w), w\<lparr>dateCalls := Suc (dateCalls w)\<rparr>)"

text \<open>
  One awaited database statement \<open>q\<close>, which maps the table to its result rows and the
  new table. The statement sees the table as the concurrent handlers left it. A promise
  that rejects leaves the table as it found it. Database promises are taken to settle.
\<close>

definition dbQuery ::
  "env \<Rightarrow> world \<Rightarrow> (device list \<Rightarrow> 'a \<times> device list) \<Rightarrow> (error + 'a) \<times> world" where
  "dbQuery e w q =
     (let k = dbCalls w;
          t = concurrent e k (table w);
          w1 = w\<lparr>table := t, dbCalls := Suc k\<rparr>
      in (case dbFault e k of
            Some msg \<Rightarrow> (Inl (DbError msg), w1)
          | None \<Rightarrow> (case q t of (r, t') \<Rightarrow> (Inr r, w1\<lparr>table := t'\<rparr>))))"

section \<open>The store (server/storage.ts)\<close>

text \<open>\<open>const [row] = rows; return row || undefined\<close>\<close>

definition first_row :: "'a list \<Rightarrow> 'a option" where
  "first_row rows = (case rows of [] \<Rightarrow> None | r # _ \<Rightarrow> Some r)"

text \<open>\<open>db.update(devices).set(f).where(eq(devices.id, i)).returning()\<close>\<close>

definition sql_update ::
  "(device \<Rightarrow> device) \<Rightarrow> string \<Rightarrow> device list \<Rightarrow> device list \<times> device list" where
  "sql_update f i t =
     (map f (filter (\<lambda>r. id_col r = i) t), map (\<lambda>r. if id_col r = i then f r else r) t)"

definition getAllDevices :: "env \<Rightarrow> world \<Rightarrow> (error + device list) \<times> world" where
  "getAllDevices e w = dbQuery e w (\<lambda>t. (t, t))"

definition getDevice :: "env \<Rightarrow> world \<Rightarrow> string \<Rightarrow> (error + device option) \<times> world" where
  "getDevice e w i = dbQuery e w (\<lambda>t. (first_row (filter (\<lambda>r. id_col r = i) t), t))"

text \<open>
  The object \<open>updateData\<close> of \<open>updateDeviceStatus\<close>: \<open>status\<close> and \<open>lastCheckedAt\<close> are
  always present, the key \<open>lastSeenAt\<close> only when it was assigned.
\<close>

record updateData =
  set_status :: string
  set_lastCheckedAt :: date
  set_lastSeenAt :: "date option"

definition set_row :: "updateData \<Rightarrow> device \<Rightarrow> device" where
  "set_row u r =
     r\<lparr>status := set_status u,
       lastCheckedAt := Some (set_lastCheckedAt u),
       lastSeenAt := (case set_lastSeenAt u of None \<Rightarrow> lastSeenAt r | Some t \<Rightarrow> Some t)\<rparr>"

text \<open>
  \<open>if (lastSeenAt)\<close> tests the optional argument: a \<open>Date\<close> object is truthy, \<open>undefined\<close>
  is not.
\<close>

definition updateDeviceStatus ::
  "env \<Rightarrow> world \<Rightarrow> string \<Rightarrow> string \<Rightarrow> date option \<Rightarrow> (error + device option) \<times> world" where
  "updateDeviceStatus e w i s seen =
     (case newDate e w of (now, w1) \<Rightarrow>
        let u0 = \<lparr>set_status = s, set_lastCheckedAt = now, set_lastSeenAt = None\<rparr>;
            u = (if seen \<noteq> None then u0\<lparr>set_lastSeenAt := seen\<rparr> else u0)
        in (case dbQuery e w1 (sql_update (set_row u) i) of
              (Inl err, w2) \<Rightarrow> (Inl err, w2)
            | (Inr rows, w2) \<Rightarrow> (Inr (first_row rows), w2)))"

text \<open>
  For stating results: the row \<open>r\<close> after a status write with status \<open>s\<close> at time
  \<open>now\<close>, and with \<open>lastSeenAt\<close> argument \<open>seen\<close>.
\<close>

definition status_written :: "string \<Rightarrow> date \<Rightarrow> date option \<Rightarrow> device \<Rightarrow> device" where
  "status_written s now seen r =
     r\<lparr>status := s, lastCheckedAt := Some now,
       lastSeenAt := (case seen of None \<Rightarrow> lastSeenAt r | Some t \<Rightarrow> Some t)\<rparr>"

section \<open>The liveness monitor (server/deviceMonitor.ts)\<close>

text \<open>
  \<open>execSync(cmd, {encoding: "utf-8", timeout: t, stdio: "pipe"})\<close>: spawns one child
  process, recorded in \<open>execLog\<close>, and returns its output or throws.
\<close>

definition execSync :: "env \<Rightarrow> world \<Rightarrow> string \<Rightarrow> nat \<Rightarrow> (error + string) \<times> world" where
  "execSync e w cmd t =
     (let w1 = w\<lparr>execLog := execLog w @ [(cmd, t)]\<rparr>
      in (case execOracle e (length (execLog w)) cmd t of
            Inl f \<Rightarrow> (Inl (ExecError f), w1)
          | Inr out \<Rightarrow> (Inr out, w1)))"

definition pingDevice :: "env \<Rightarrow> world \<Rightarrow> string \<Rightarrow> (error + bool) \<times> world" where
  "pingDevice e w ip =
     (case execSync e w (''ping -c 1 -W 2 '' @ ip) 5000 of
        (Inr out, w1) \<Rightarrow> (Inr True, w1)
      | (Inl err, w1) \<Rightarrow> (Inr False, w1))"

text \<open>The body of the \<open>for\<close> loop of \<open>checkAllDevices\<close>, for one device of the list.\<close>

definition checkDevice :: "env \<Rightarrow> world \<Rightarrow> device \<Rightarrow> (error + unit) \<times> world" where
  "checkDevice e w d =
     (case pingDevice e w (ipAddress d) of
        (Inl err, w1) \<Rightarrow> (Inl err, w1)
      | (Inr isOnline, w1) \<Rightarrow>
          let st = (if isOnline then ''online'' else ''offline'');
              (seen, w2) = (if isOnline then (case newDate e w1 of (t, w') \<Rightarrow> (Some t, w'))
                            else (None, w1))
          in (case updateDeviceStatus e w2 (id_col d) st seen of
                (Inl err, w3) \<Rightarrow> (Inl err, w3)
              | (Inr r, w3) \<Rightarrow> (Inr (), w3)))"

text \<open>The \<open>for\<close> loop: a thrown error leaves the loop at once.\<close>

fun checkLoop :: "env \<Rightarrow> world \<Rightarrow> device list \<Rightarrow> (error + unit) \<times> world" where
  "checkLoop e w [] = (Inr (), w)"
| "checkLoop e w (d # ds) =
     (case checkDevice e w d of
        (Inl err, w1) \<Rightarrow> (Inl err, w1)
      | (Inr u, w1) \<Rightarrow> checkLoop e w1 ds)"

definition console_error :: "world \<Rightarrow> string \<Rightarrow> world" where
  "console_error w line = w\<lparr>console := console w @ [line]\<rparr>"

text \<open>
  The console line of a caught error, abridged to its message (\<open>console.error\<close> prints
  the whole error object).
\<close>

fun show_error :: "error \<Rightarrow> string" where
  "show_error (DbError msg) = msg"
| "show_error (ExecError f) = ''Command failed''"

text \<open>
  \<open>checkAllDevices\<close>: the whole body is one \<open>try\<close> block, whose \<open>catch\<close> logs the error.
\<close>

definition checkAllDevices :: "env \<Rightarrow> world \<Rightarrow> (error + unit) \<times> world" where
  "checkAllDevices e w =
     (let tried =
        (case getAllDevices e w of
           (Inl err, w1) \<Rightarrow> (Inl err, w1)
         | (Inr devices, w1) \<Rightarrow> checkLoop e w1 devices)
      in (case tried of
            (Inl err, w2) \<Rightarrow> (Inr (), console_error w2 (''Device monitor error: '' @ show_error err))
          | (Inr u, w2) \<Rightarrow> (Inr (), w2)))"

section \<open>The lifecycle of the monitor (server/deviceMonitor.ts)\<close>

text \<open>
  The module variable \<open>monitorInterval\<close> and the part of the JavaScript runtime that
  \<open>startDeviceMonitor\<close> and \<open>stopDeviceMonitor\<close> act on: the armed interval timers (handle
  and period in milliseconds; the callback of every timer armed here is
  \<open>checkAllDevices\<close>), the next fresh timer handle, the number of calls of
  \<open>checkAllDevices\<close> made so far, and the number of them whose promise has not settled
  yet. \<open>checkAllDevices\<close> is \<open>async\<close> and awaits the database at least once, so a pass
  is in flight from its call until a later turn of the event loop.
\<close>

record runtime =
  monitorInterval :: "nat option"
  timers :: "(nat \<times> nat) list"
  nextHandle :: nat
  passesStarted :: nat
  inFlight :: nat
  logged :: "string list"

definition MONITOR_INTERVAL :: nat where
  "MONITOR_INTERVAL = 60000"

definition console_log :: "runtime \<Rightarrow> string \<Rightarrow> runtime" where
  "console_log rt line = rt\<lparr>logged := logged rt @ [line]\<rparr>"

text \<open>Calling \<open>checkAllDevices\<close> without awaiting it: one more pass is in flight.\<close>

definition call_checkAllDevices :: "runtime \<Rightarrow> runtime" where
  "call_checkAllDevices rt =
     rt\<lparr>passesStarted := Suc (passesStarted rt), inFlight := Suc (inFlight rt)\<rparr>"

definition setInterval :: "runtime \<Rightarrow> nat \<Rightarrow> nat \<times> runtime" where
  "setInterval rt period =
     (nextHandle rt,
      rt\<lparr>timers := timers rt @ [(nextHandle rt, period)], nextHandle := Suc (nextHandle rt)\<rparr>)"

definition clearInterval :: "runtime \<Rightarrow> nat \<Rightarrow> runtime" where
  "clearInterval rt h = rt\<lparr>timers := filter (\<lambda>t. fst t \<noteq> h) (timers rt)\<rparr>"

text \<open>\<open>if (monitorInterval)\<close>: a timer handle is truthy, \<open>null\<close> is not.\<close>

definition startDeviceMonitor :: "runtime \<Rightarrow> runtime" where
  "startDeviceMonitor rt =
     (if monitorInterval rt \<noteq> None then rt
      else
        let rt1 = console_log rt ''Starting device monitor (checking every 60 seconds)...'';
            rt2 = call_checkAllDevices rt1
        in (case setInterval rt2 MONITOR_INTERVAL of
              (h, rt3) \<Rightarrow> rt3\<lparr>monitorInterval := Some h\<rparr>))"

definition stopDeviceMonitor :: "runtime \<Rightarrow> runtime" where
  "stopDeviceMonitor rt =
     (case monitorInterval rt of
        Some h \<Rightarrow> console_log ((clearInterval rt h)\<lparr>monitorInterval := None\<rparr>) ''Device monitor stopped''
      | None \<Rightarrow> rt)"

text \<open>
  What can happen to the runtime: the host calls \<open>start\<close> or \<open>stop\<close>, the timer with a
  given handle fires (the runtime then calls \<open>checkAllDevices\<close>, if that timer is armed),
  or the promise of a pass in flight settles.
\<close>

datatype event = Start | Stop | Tick nat | Settle

fun fire :: "runtime \<Rightarrow> event \<Rightarrow> runtime" where
  "fire rt Start = startDeviceMonitor rt"
| "fire rt Stop = stopDeviceMonitor rt"
| "fire rt (Tick h) = (if h \<in> fst ` set (timers rt) then call_checkAllDevices rt else rt)"
| "fire rt Settle = (if inFlight rt = 0 then rt else rt\<lparr>inFlight := inFlight rt - 1\<rparr>)"

definition run_events :: "runtime \<Rightarrow> event list \<Rightarrow> runtime" where
  "run_events rt evs = foldl fire rt evs"

text \<open>The runtime when the module has been loaded and nothing has been called.\<close>

definition loaded :: runtime where
  "loaded = \<lparr>monitorInterval = None, timers = [], nextHandle = 0, passesStarted = 0,
             inFlight = 0, logged = []\<rparr>"

datatype lifecycle = Stopped | Running

definition lifecycle_of :: "runtime \<Rightarrow> lifecycle" where
  "lifecycle_of rt = (if monitorInterval rt = None then Stopped else Running)"

text \<open>An event that calls \<open>checkAllDevices\<close> in the given runtime.\<close>

fun starts_pass :: "runtime \<Rightarrow> event \<Rightarrow> bool" where
  "starts_pass rt Start = (monitorInterval rt = None)"
| "starts_pass rt Stop = False"
| "starts_pass rt (Tick h) = (h \<in> fst ` set (timers rt))"
| "starts_pass rt Settle = False"

text \<open>
  An execution in which no pass is in flight whenever a pass is started: every pass
  settles before the next one begins.
\<close>

fun well_spaced :: "runtime \<Rightarrow> event list \<Rightarrow> bool" where
  "well_spaced rt [] = True"
| "well_spaced rt (ev # evs) =
     ((starts_pass rt ev \<longrightarrow> inFlight rt = 0) \<and> well_spaced (fire rt ev) evs)"

section \<open>The device API (shared/schema.ts and the device routes)\<close>

text \<open>
  A request body is a JSON value. \<open>insertDeviceSchema\<close> is the insert schema of the table
  without the keys \<open>id\<close>, \<open>status\<close>, \<open>lastSeenAt\<close> and \<open>lastCheckedAt\<close>, with the formats
  of \<open>ipAddress\<close> and \<open>macAddress\<close> refined. An object schema drops the keys it does not
  know. A key of the parsed object is absent or present; a nullable column may be
  present with the value \<open>null\<close>.
\<close>

datatype json =
  JNull | JBool bool | JNumber int | JString string | JArray "json list"
  | JObject "(string \<times> json) list"

datatype 'a field = Absent | Present 'a

record insertDevice =
  in_name :: string
  in_ipAddress :: string
  in_macAddress :: "string field"
  in_deviceType :: "string field"
  in_os :: "string option field"
  in_description :: "string option field"

record partialInsertDevice =
  p_name :: "string field"
  p_ipAddress :: "string field"
  p_macAddress :: "string field"
  p_deviceType :: "string field"
  p_os :: "string option field"
  p_description :: "string option field"

text \<open>The value of a key of a parsed JSON object: the last occurrence counts.\<close>

definition json_member :: "(string \<times> json) list \<Rightarrow> string \<Rightarrow> json option" where
  "json_member kvs k = map_of (rev kvs) k"

definition is_digit :: "char \<Rightarrow> bool" where
  "is_digit c = (c \<in> set ''0123456789'')"

definition is_hex :: "char \<Rightarrow> bool" where
  "is_hex c = (c \<in> set ''0123456789ABCDEFabcdef'')"

fun split_on :: "char \<Rightarrow> string \<Rightarrow> string list" where
  "split_on c [] = [[]]"
| "split_on c (x # xs) =
     (if x = c then [] # split_on c xs
      else (case split_on c xs of [] \<Rightarrow> [[x]] | g # gs \<Rightarrow> (x # g) # gs))"

text \<open>\<open>/^(\d{1,3}\.){3}\d{1,3}$/\<close>: four groups of one to three digits, separated by dots.\<close>

definition ipv4_format :: "string \<Rightarrow> bool" where
  "ipv4_format s =
     (let gs = split_on (CHR ''.'') s
      in length gs = 4 \<and> list_all (\<lambda>g. 1 \<le> length g \<and> length g \<le> 3 \<and> list_all is_digit g) gs)"

text \<open>
  \<open>/^([0-9A-Fa-f]{2}[:-]){5}([0-9A-Fa-f]{2})$/\<close>: seventeen characters, every third one
  a colon or a hyphen, the others hexadecimal digits.
\<close>

definition mac_format :: "string \<Rightarrow> bool" where
  "mac_format s =
     (length s = 17 \<and>
      list_all (\<lambda>k. if k mod 3 = 2 then s ! k = CHR '':'' \<or> s ! k = CHR ''-'' else is_hex (s ! k))
        [0..<17])"

text \<open>The schemas of the single keys; \<open>None\<close> is a validation error.\<close>

fun z_string :: "json option \<Rightarrow> string option" where
  "z_string (Some (JString s)) = Some s"
| "z_string _ = None"

fun z_string_optional :: "json option \<Rightarrow> string field option" where
  "z_string_optional None = Some Absent"
| "z_string_optional (Some (JString s)) = Some (Present s)"
| "z_string_optional _ = None"

fun z_string_nullable_optional :: "json option \<Rightarrow> string option field option" where
  "z_string_nullable_optional None = Some Absent"
| "z_string_nullable_optional (Some JNull) = Some (Present None)"
| "z_string_nullable_optional (Some (JString s)) = Some (Present (Some s))"
| "z_string_nullable_optional _ = None"

fun z_ipAddress :: "json option \<Rightarrow> string option" where
  "z_ipAddress (Some (JString s)) = (if ipv4_format s then Some s else None)"
| "z_ipAddress _ = None"

text \<open>\<open>z.string().regex(...).optional().or(z.literal(""))\<close>\<close>

fun z_macAddress :: "json option \<Rightarrow> string field option" where
  "z_macAddress None = Some Absent"
| "z_macAddress (Some (JString s)) = (if mac_format s \<or> s = [] then Some (Present s) else None)"
| "z_macAddress _ = None"

text \<open>\<open>.partial()\<close> makes a required key optional.\<close>

definition z_partial :: "(json option \<Rightarrow> 'a option) \<Rightarrow> json option \<Rightarrow> 'a field option" where
  "z_partial schema v =
     (case v of None \<Rightarrow> Some Absent | Some j \<Rightarrow> map_option Present (schema (Some j)))"

fun insertDeviceSchema :: "json \<Rightarrow> insertDevice option" where
  "insertDeviceSchema (JObject kvs) =
     (case (z_string (json_member kvs ''name''), z_ipAddress (json_member kvs ''ipAddress''),
            z_macAddress (json_member kvs ''macAddress''),
            z_string_optional (json_member kvs ''deviceType''),
            z_string_nullable_optional (json_member kvs ''os''),
            z_string_nullable_optional (json_member kvs ''description'')) of
        (Some n, Some ip, Some mac, Some ty, Some o_s, Some de) \<Rightarrow>
          Some \<lparr>in_name = n, in_ipAddress = ip, in_macAddress = mac, in_deviceType = ty,
                in_os = o_s, in_description = de\<rparr>
      | _ \<Rightarrow> None)"
| "insertDeviceSchema _ = None"

fun partialSchema :: "json \<Rightarrow> partialInsertDevice option" where
  "partialSchema (JObject kvs) =
     (case (z_partial z_string (json_member kvs ''name''),
            z_partial z_ipAddress (json_member kvs ''ipAddress''),
            z_macAddress (json_member kvs ''macAddress''),
            z_string_optional (json_member kvs ''deviceType''),
            z_string_nullable_optional (json_member kvs ''os''),
            z_string_nullable_optional (json_member kvs ''description'')) of
        (Some n, Some ip, Some mac, Some ty, Some o_s, Some de) \<Rightarrow>
          Some \<lparr>p_name = n, p_ipAddress = ip, p_macAddress = mac, p_deviceType = ty,
                p_os = o_s, p_description = de\<rparr>
      | _ \<Rightarrow> None)"
| "partialSchema _ = None"

text \<open>
  \<open>createDevice\<close>: the inserted row takes the columns that the statement does not give
  from the defaults of the table: a fresh \<open>id\<close>, \<open>deviceType\<close> \<open>"other"\<close>, \<open>status\<close>
  \<open>"unknown"\<close>, and \<open>null\<close> for the nullable columns.
\<close>

definition or_default :: "'a field \<Rightarrow> 'a \<Rightarrow> 'a" where
  "or_default f d = (case f of Absent \<Rightarrow> d | Present x \<Rightarrow> x)"

definition new_row :: "string \<Rightarrow> insertDevice \<Rightarrow> device" where
  "new_row i ins =
     \<lparr>id_col = i, name = in_name ins, ipAddress = in_ipAddress ins,
      macAddress = (case in_macAddress ins of Absent \<Rightarrow> None | Present m \<Rightarrow> Some m),
      deviceType = or_default (in_deviceType ins) ''other'',
      os = or_default (in_os ins) None,
      description = or_default (in_description ins) None,
      status = ''unknown'', lastSeenAt = None, lastCheckedAt = None\<rparr>"

definition createDevice :: "env \<Rightarrow> world \<Rightarrow> insertDevice \<Rightarrow> (error + device option) \<times> world" where
  "createDevice e w ins =
     (case dbQuery e w (\<lambda>t. ([new_row (newId e (dbCalls w)) ins], t @ [new_row (newId e (dbCalls w)) ins])) of
        (Inl err, w1) \<Rightarrow> (Inl err, w1)
      | (Inr rows, w1) \<Rightarrow> (Inr (first_row rows), w1))"

text \<open>
  \<open>updateDevice\<close>: \<open>set(updates)\<close> assigns the keys that are present. (For an object
  with no key at all the query builder throws before any statement is issued; here the
  statement is issued and changes no row. The table is the same either way.)
\<close>

definition set_updates :: "partialInsertDevice \<Rightarrow> device \<Rightarrow> device" where
  "set_updates p r =
     r\<lparr>name := or_default (p_name p) (name r),
       ipAddress := or_default (p_ipAddress p) (ipAddress r),
       macAddress := (case p_macAddress p of Absent \<Rightarrow> macAddress r | Present m \<Rightarrow> Some m),
       deviceType := or_default (p_deviceType p) (deviceType r),
       os := or_default (p_os p) (os r),
       description := or_default (p_description p) (description r)\<rparr>"

definition updateDevice ::
  "env \<Rightarrow> world \<Rightarrow> string \<Rightarrow> partialInsertDevice \<Rightarrow> (error + device option) \<times> world" where
  "updateDevice e w i p =
     (case dbQuery e w (sql_update (set_updates p) i) of
        (Inl err, w1) \<Rightarrow> (Inl err, w1)
      | (Inr rows, w1) \<Rightarrow> (Inr (first_row rows), w1))"

text \<open>
  The handlers of \<open>POST /api/devices\<close> and \<open>PATCH /api/devices/:id\<close>, after the check of
  the session: the reply is the HTTP status code and, on success, the device.
\<close>

datatype reply = Success "device option" | Invalid_400 | Not_Found_404 | Internal_500

definition post_device :: "env \<Rightarrow> world \<Rightarrow> json \<Rightarrow> reply \<times> world" where
  "post_device e w body =
     (case insertDeviceSchema body of
        None \<Rightarrow> (Invalid_400, w)
      | Some parsed \<Rightarrow>
          (case createDevice e w parsed of
             (Inl err, w1) \<Rightarrow> (Internal_500, console_error w1 (''Create device error: '' @ show_error err))
           | (Inr dev, w1) \<Rightarrow> (Success dev, w1)))"

definition patch_device :: "env \<Rightarrow> world \<Rightarrow> string \<Rightarrow> json \<Rightarrow> reply \<times> world" where
  "patch_device e w i body =
     (case partialSchema body of
        None \<Rightarrow> (Invalid_400, w)
      | Some parsed \<Rightarrow>
          (case getDevice e w i of
             (Inl err, w1) \<Rightarrow> (Internal_500, console_error w1 (''Update device error: '' @ show_error err))
           | (Inr None, w1) \<Rightarrow> (Not_Found_404, w1)
           | (Inr (Some existing), w1) \<Rightarrow>
               (case updateDevice e w1 i parsed of
                  (Inl err, w2) \<Rightarrow> (Internal_500, console_error w2 (''Update device error: '' @ show_error err))
                | (Inr dev, w2) \<Rightarrow> (Success dev, w2))))"

text \<open>A create or an edit request, and the effect of a sequence of them on the world.\<close>

datatype request = Post json | Patch string json

fun handle :: "env \<Rightarrow> world \<Rightarrow> request \<Rightarrow> reply \<times> world" where
  "handle e w (Post body) = post_device e w body"
| "handle e w (Patch i body) = patch_device e w i body"

fun handle_all :: "env \<Rightarrow> world \<Rightarrow> request list \<Rightarrow> world" where
  "handle_all e w [] = w"
| "handle_all e w (rq # rqs) = handle_all e (snd (handle e w rq)) rqs"

section \<open>Notions for stating the results\<close>

text \<open>
  Whether the \<open>k\<close>-th child process, when it is the ping of \<open>ip\<close> that \<open>pingDevice\<close>
  issues, ends with exit status 0 within the timeout.
\<close>

definition reachable :: "env \<Rightarrow> nat \<Rightarrow> string \<Rightarrow> bool" where
  "reachable e k ip = (\<not> isl (execOracle e k (''ping -c 1 -W 2 '' @ ip) 5000))"

text \<open>What the loop body writes to the rows of device \<open>d\<close>, when it starts in world \<open>w\<close>.\<close>

definition probe_update :: "env \<Rightarrow> world \<Rightarrow> device \<Rightarrow> device \<Rightarrow> device" where
  "probe_update e w d =
     (if reachable e (length (execLog w)) (ipAddress d)
      then status_written ''online'' (clockAt e (Suc (dateCalls w))) (Some (clockAt e (dateCalls w)))
      else status_written ''offline'' (clockAt e (dateCalls w)) None)"

text \<open>The counters and the process log after the loop body has run for device \<open>d\<close>.\<close>

definition after_probe :: "env \<Rightarrow> world \<Rightarrow> device \<Rightarrow> world" where
  "after_probe e w d =
     w\<lparr>execLog := execLog w @ [(''ping -c 1 -W 2 '' @ ipAddress d, 5000)],
       dateCalls := (if reachable e (length (execLog w)) (ipAddress d) then dateCalls w + 2 else dateCalls w + 1),
       dbCalls := Suc (dbCalls w)\<rparr>"

text \<open>The columns that a status write must keep.\<close>

definition same_columns :: "device \<Rightarrow> device \<Rightarrow> bool" where
  "same_columns r r' \<longleftrightarrow>
     id_col r' = id_col r \<and> name r' = name r \<and> ipAddress r' = ipAddress r \<and>
     macAddress r' = macAddress r \<and> deviceType r' = deviceType r \<and> os r' = os r \<and>
     description r' = description r"

text \<open>
  Row \<open>r\<close> has become \<open>r'\<close> by the write-back of the probe that was child process \<open>x\<close>,
  with the clock read during the pass (readings \<open>lo\<close> up to \<open>hi\<close>, excluded).
\<close>

definition written_row :: "env \<Rightarrow> nat \<Rightarrow> string \<Rightarrow> nat \<Rightarrow> nat \<Rightarrow> device \<Rightarrow> device \<Rightarrow> bool" where
  "written_row e x ip lo hi r r' \<longleftrightarrow>
     same_columns r r' \<and>
     (if reachable e x ip
      then status r' = ''online'' \<and>
           (\<exists>k. lo \<le> k \<and> Suc k < hi \<and> lastSeenAt r' = Some (clockAt e k) \<and>
                lastCheckedAt r' = Some (clockAt e (Suc k)))
      else status r' = ''offline'' \<and>
           (\<exists>k. lo \<le> k \<and> k < hi \<and> lastCheckedAt r' = Some (clockAt e k)) \<and>
           lastSeenAt r' = lastSeenAt r)"

text \<open>
  The timers armed are exactly the one whose handle \<open>monitorInterval\<close> holds, if any.
\<close>

definition one_timer :: "runtime \<Rightarrow> bool" where
  "one_timer rt \<longleftrightarrow>
     timers rt = (case monitorInterval rt of None \<Rightarrow> [] | Some h \<Rightarrow> [(h, MONITOR_INTERVAL)])"

text \<open>The columns that only the monitor is meant to set.\<close>

definition monitor_columns :: "device \<Rightarrow> string \<times> date option \<times> date option" where
  "monitor_columns r = (status r, lastSeenAt r, lastCheckedAt r)"

section \<open>Example data\<close>

text \<open>
  Two devices: A at 192.168.1.10, never probed, and B at 192.168.1.99, last seen at
  time 5 and last checked at time 7.
\<close>

definition device_A :: device where
  "device_A = \<lparr>id_col = ''a'', name = ''A'', ipAddress = ''192.168.1.10'', macAddress = None,
     deviceType = ''other'', os = None, description = None, status = ''unknown'',
     lastSeenAt = None, lastCheckedAt = None\<rparr>"

definition device_B :: device where
  "device_B = \<lparr>id_col = ''b'', name = ''B'', ipAddress = ''192.168.1.99'', macAddress = None,
     deviceType = ''other'', os = None, description = None, status = ''online'',
     lastSeenAt = Some 5, lastCheckedAt = Some 7\<rparr>"

definition two_devices :: world where
  "two_devices = \<lparr>table = [device_A, device_B], execLog = [], dbCalls = 0, dateCalls = 0,
     console = []\<rparr>"

text \<open>
  An environment where only A answers the ping, every database statement succeeds,
  nothing else touches the table, and the \<open>k\<close>-th reading of the clock is \<open>1000 + k\<close>.
\<close>

definition quiet_env :: env where
  "quiet_env = \<lparr>execOracle = (\<lambda>k cmd t. if cmd = ''ping -c 1 -W 2 192.168.1.10'' then Inr ''1 received''
                                        else Inl (NonZeroExit 1)),
     dbFault = (\<lambda>k. None), concurrent = (\<lambda>k t. t), clockAt = (\<lambda>k. 1000 + k),
     newId = (\<lambda>k. ''fresh'')\<rparr>"

text \<open>The same, but the second database statement (the first status write of a pass) rejects.\<close>

definition failing_write_env :: env where
  "failing_write_env = quiet_env\<lparr>dbFault := (\<lambda>k. if k = 1 then Some ''connection lost'' else None)\<rparr>"

text \<open>
  The same as \<open>quiet_env\<close>, but the third database statement (the second status write
  of a pass) rejects.
\<close>

definition failing_second_write_env :: env where
  "failing_second_write_env =
     quiet_env\<lparr>dbFault := (\<lambda>k. if k = 2 then Some ''connection lost'' else None)\<rparr>"

text \<open>The same as \<open>quiet_env\<close>, but the first database statement rejects.\<close>

definition failing_read_env :: env where
  "failing_read_env = quiet_env\<lparr>dbFault := (\<lambda>k. if k = 0 then Some ''connection lost'' else None)\<rparr>"

text \<open>
  The same as \<open>quiet_env\<close>, but another handler deletes device A after the list has been
  read and before the first status write executes.
\<close>

definition deleting_env :: env where
  "deleting_env = quiet_env\<lparr>concurrent :=
     (\<lambda>k t. if k = 1 then filter (\<lambda>r. id_col r \<noteq> ''a'') t else t)\<rparr>"

text \<open>Request bodies that try to set the status.\<close>

definition post_with_status :: json where
  "post_with_status = JObject [(''name'', JString ''C''), (''ipAddress'', JString ''10.0.0.7''),
     (''status'', JString ''online'')]"

definition patch_with_status :: json where
  "patch_with_status = JObject [(''status'', JString ''offline''), (''name'', JString ''Z'')]"

section \<open>Basic facts about the store operations\<close>

lemma dbQuery_ok:
  "dbFault e (dbCalls w) = None \<Longrightarrow>
   dbQuery e w q =
     (Inr (fst (q (concurrent e (dbCalls w) (table w)))),
      w\<lparr>table := snd (q (concurrent e (dbCalls w) (table w))), dbCalls := Suc (dbCalls w)\<rparr>)"
  by (simp add: dbQuery_def Let_def split: prod.splits)

lemma dbQuery_fault:
  "dbFault e (dbCalls w) = Some msg \<Longrightarrow>
   dbQuery e w q =
     (Inl (DbError msg),
      w\<lparr>table := concurrent e (dbCalls w) (table w), dbCalls := Suc (dbCalls w)\<rparr>)"
  by (simp add: dbQuery_def Let_def)

lemma updateDeviceStatus_ok:
  assumes ok: "dbFault e (dbCalls w) = None"
  shows "updateDeviceStatus e w i s seen =
     (Inr (first_row (map (status_written s (clockAt e (dateCalls w)) seen)
              (filter (\<lambda>r. id_col r = i) (concurrent e (dbCalls w) (table w))))),
      w\<lparr>table := map (\<lambda>r. if id_col r = i
                             then status_written s (clockAt e (dateCalls w)) seen r else r)
                    (concurrent e (dbCalls w) (table w)),
        dbCalls := Suc (dbCalls w), dateCalls := Suc (dateCalls w)\<rparr>)"
proof (cases seen)
  case None
  have "set_row \<lparr>set_status = s, set_lastCheckedAt = now, set_lastSeenAt = None\<rparr>
          = status_written s now None" for now
    by (rule ext) (simp add: set_row_def status_written_def)
  with ok None show ?thesis
    by (simp add: updateDeviceStatus_def newDate_def dbQuery_ok sql_update_def)
next
  case (Some t)
  have "set_row \<lparr>set_status = s, set_lastCheckedAt = now, set_lastSeenAt = Some t\<rparr>
          = status_written s now (Some t)" for now
    by (rule ext) (simp add: set_row_def status_written_def)
  with ok Some show ?thesis
    by (simp add: updateDeviceStatus_def newDate_def dbQuery_ok sql_update_def)
qed

lemma updateDeviceStatus_fault:
  "dbFault e (dbCalls w) = Some msg \<Longrightarrow>
   updateDeviceStatus e w i s seen =
     (Inl (DbError msg),
      w\<lparr>table := concurrent e (dbCalls w) (table w),
        dbCalls := Suc (dbCalls w), dateCalls := Suc (dateCalls w)\<rparr>)"
  by (simp add: updateDeviceStatus_def newDate_def dbQuery_fault Let_def)

lemma first_row_None_iff: "first_row xs = None \<longleftrightarrow> xs = []"
  by (simp add: first_row_def split: list.splits)

lemma first_row_map: "first_row (map f xs) = map_option f (first_row xs)"
  by (simp add: first_row_def split: list.splits)

lemma first_row_filter_Some:
  "first_row (filter P xs) = Some r \<Longrightarrow> r \<in> set xs \<and> P r"
  by (auto simp: first_row_def split: list.splits dest: filter_eq_ConsD Cons_eq_filterD)

section \<open>Basic facts about the loop of a pass\<close>

lemma pingDevice_eq:
  "pingDevice e w ip =
     (Inr (reachable e (length (execLog w)) ip),
      w\<lparr>execLog := execLog w @ [(''ping -c 1 -W 2 '' @ ip, 5000)]\<rparr>)"
  by (simp add: pingDevice_def execSync_def reachable_def Let_def split: sum.splits)

lemma checkDevice_ok:
  assumes "dbFault e (dbCalls w) = None"
  shows "checkDevice e w d =
     (Inr (), (after_probe e w d)
        \<lparr>table := map (\<lambda>r. if id_col r = id_col d then probe_update e w d r else r)
                    (concurrent e (dbCalls w) (table w))\<rparr>)"
  using assms
  by (simp add: checkDevice_def pingDevice_eq newDate_def updateDeviceStatus_ok after_probe_def probe_update_def)

lemma checkDevice_fault:
  assumes "dbFault e (dbCalls w) = Some msg"
  shows "checkDevice e w d =
     (Inl (DbError msg), (after_probe e w d)\<lparr>table := concurrent e (dbCalls w) (table w)\<rparr>)"
  using assms
  by (simp add: checkDevice_def pingDevice_eq newDate_def updateDeviceStatus_fault after_probe_def)

lemma written_row_mono:
  "written_row e x ip lo hi r r' \<Longrightarrow> lo' \<le> lo \<Longrightarrow> hi \<le> hi' \<Longrightarrow> written_row e x ip lo' hi' r r'"
proof -
  assume wr: "written_row e x ip lo hi r r'" and lo: "lo' \<le> lo" and hi: "hi \<le> hi'"
  show ?thesis
  proof (cases "reachable e x ip")
    case True
    with wr obtain k where "lo \<le> k" "Suc k < hi" "lastSeenAt r' = Some (clockAt e k)"
        "lastCheckedAt r' = Some (clockAt e (Suc k))"
      unfolding written_row_def by auto
    with lo hi have "\<exists>k. lo' \<le> k \<and> Suc k < hi' \<and> lastSeenAt r' = Some (clockAt e k) \<and>
                lastCheckedAt r' = Some (clockAt e (Suc k))"
      by (intro exI[where x = k]) simp
    with wr True show ?thesis
      unfolding written_row_def by simp
  next
    case False
    with wr obtain k where "lo \<le> k" "k < hi" "lastCheckedAt r' = Some (clockAt e k)"
      unfolding written_row_def by auto
    with lo hi have "\<exists>k. lo' \<le> k \<and> k < hi' \<and> lastCheckedAt r' = Some (clockAt e k)"
      by (intro exI[where x = k]) simp
    with wr False show ?thesis
      unfolding written_row_def by simp
  qed
qed

lemma written_row_probe_update:
  "dateCalls w + 2 \<le> hi \<Longrightarrow>
   written_row e (length (execLog w)) (ipAddress d) (dateCalls w) hi r (probe_update e w d r)"
  unfolding written_row_def probe_update_def status_written_def same_columns_def
  by (auto intro!: exI[where x = "dateCalls w"])

lemma after_probe_simps [simp]:
  "dbCalls (after_probe e w d) = Suc (dbCalls w)"
  "length (execLog (after_probe e w d)) = Suc (length (execLog w))"
  "table (after_probe e w d) = table w"
  "console (after_probe e w d) = console w"
  "dateCalls w < dateCalls (after_probe e w d)"
  by (simp_all add: after_probe_def)

lemma checkLoop_rows:
  assumes quiet: "\<forall>k t. concurrent e k t = t"
    and ok: "\<forall>j<n. dbFault e (dbCalls w + j) = None"
    and stop: "n = length ds \<or> (n < length ds \<and> dbFault e (dbCalls w + n) \<noteq> None)"
    and dist: "distinct (map id_col ds)"
  shows "length (table (snd (checkLoop e w ds))) = length (table w) \<and>
     dateCalls w \<le> dateCalls (snd (checkLoop e w ds)) \<and>
     (\<forall>j<length (table w).
        (id_col (table w ! j) \<notin> id_col ` set (take n ds) \<longrightarrow>
           table (snd (checkLoop e w ds)) ! j = table w ! j) \<and>
        (\<forall>m<n. id_col (table w ! j) = id_col (ds ! m) \<longrightarrow>
           written_row e (length (execLog w) + m) (ipAddress (ds ! m))
             (dateCalls w) (dateCalls (snd (checkLoop e w ds)))
             (table w ! j) (table (snd (checkLoop e w ds)) ! j)))"
  using ok stop dist
proof (induction ds arbitrary: w n)
  case Nil
  then show ?case by simp
next
  case (Cons d ds)
  show ?case
  proof (cases n)
    case 0
    with Cons.prems obtain msg where msg: "dbFault e (dbCalls w) = Some msg"
      by auto
    show ?thesis
      using quiet 0 by (simp add: checkDevice_fault[OF msg] less_imp_le)
  next
    case (Suc n')
    with Cons.prems have ok0: "dbFault e (dbCalls w) = None"
      by auto
    define w1 where "w1 = (after_probe e w d)
        \<lparr>table := map (\<lambda>r. if id_col r = id_col d then probe_update e w d r else r) (table w)\<rparr>"
    have step: "checkLoop e w (d # ds) = checkLoop e w1 ds"
      using quiet by (simp add: checkDevice_ok[OF ok0] w1_def)
    let ?w' = "snd (checkLoop e w1 ds)"
    have w1: "dbCalls w1 = Suc (dbCalls w)" "length (execLog w1) = Suc (length (execLog w))"
        "length (table w1) = length (table w)" "dateCalls w < dateCalls w1"
      by (simp_all add: w1_def)
    have two: "reachable e (length (execLog w)) (ipAddress d) \<Longrightarrow> dateCalls w + 2 \<le> dateCalls w1"
      by (simp add: w1_def after_probe_def)
    have ok': "\<forall>j<n'. dbFault e (dbCalls w1 + j) = None"
      using Cons.prems(1) Suc w1 by auto
    have stop': "n' = length ds \<or> (n' < length ds \<and> dbFault e (dbCalls w1 + n') \<noteq> None)"
      using Cons.prems(2) Suc w1 by auto
    have dist': "distinct (map id_col ds)" and fresh: "id_col d \<notin> id_col ` set ds"
      using Cons.prems(3) by auto
    note IH = Cons.IH[OF ok' stop' dist']
    have len: "length (table ?w') = length (table w)"
      using IH w1 by simp
    have dc: "dateCalls w1 \<le> dateCalls ?w'"
      using IH by simp
    have rows: "(id_col (table w ! j) \<notin> id_col ` set (take n (d # ds)) \<longrightarrow>
           table ?w' ! j = table w ! j) \<and>
        (\<forall>m<n. id_col (table w ! j) = id_col ((d # ds) ! m) \<longrightarrow>
           written_row e (length (execLog w) + m) (ipAddress ((d # ds) ! m))
             (dateCalls w) (dateCalls ?w') (table w ! j) (table ?w' ! j))"
      if j: "j < length (table w)" for j
    proof -
      let ?r = "table w ! j"
      have r1: "table w1 ! j = (if id_col ?r = id_col d then probe_update e w d ?r else ?r)"
        using j by (simp add: w1_def)
      have id1: "id_col (table w1 ! j) = id_col ?r"
        by (simp add: r1 probe_update_def status_written_def)
      have IHj: "(id_col (table w1 ! j) \<notin> id_col ` set (take n' ds) \<longrightarrow>
           table ?w' ! j = table w1 ! j) \<and>
        (\<forall>m<n'. id_col (table w1 ! j) = id_col (ds ! m) \<longrightarrow>
           written_row e (length (execLog w1) + m) (ipAddress (ds ! m))
             (dateCalls w1) (dateCalls ?w') (table w1 ! j) (table ?w' ! j))"
        using IH j w1 by simp
      have unprocessed: "id_col ?r \<notin> id_col ` set (take n (d # ds)) \<longrightarrow> table ?w' ! j = ?r"
        using IHj id1 r1 Suc by auto
      have processed: "written_row e (length (execLog w) + m) (ipAddress ((d # ds) ! m))
             (dateCalls w) (dateCalls ?w') ?r (table ?w' ! j)"
        if m: "m < n" and idm: "id_col ?r = id_col ((d # ds) ! m)" for m
      proof (cases m)
        case 0
        with idm have here: "id_col ?r = id_col d" by simp
        with fresh have "id_col (table w1 ! j) \<notin> id_col ` set (take n' ds)"
          using id1 by (auto dest: in_set_takeD)
        with IHj r1 here have same: "table ?w' ! j = probe_update e w d ?r"
          by simp
        have "written_row e (length (execLog w)) (ipAddress d) (dateCalls w) (dateCalls ?w')
                ?r (probe_update e w d ?r)"
        proof (cases "reachable e (length (execLog w)) (ipAddress d)")
          case True
          then have "dateCalls w + 2 \<le> dateCalls ?w'"
            using two dc by simp
          then show ?thesis by (rule written_row_probe_update)
        next
          case False
          have "dateCalls w < dateCalls ?w'" using w1 dc by simp
          with False show ?thesis
            unfolding written_row_def probe_update_def status_written_def same_columns_def
            by (auto intro!: exI[where x = "dateCalls w"])
        qed
        with 0 same show ?thesis by simp
      next
        case (Suc m')
        with m \<open>n = Suc n'\<close> have m': "m' < n'" by simp
        with stop' have m'len: "m' < length ds" by auto
        from idm Suc have idm': "id_col ?r = id_col (ds ! m')" by simp
        with fresh m'len have "id_col ?r \<noteq> id_col d"
          by (metis image_eqI nth_mem)
        with r1 have "table w1 ! j = ?r" by simp
        with IHj m' idm' have "written_row e (length (execLog w1) + m') (ipAddress (ds ! m'))
             (dateCalls w1) (dateCalls ?w') ?r (table ?w' ! j)"
          by simp
        then have "written_row e (length (execLog w1) + m') (ipAddress (ds ! m'))
             (dateCalls w) (dateCalls ?w') ?r (table ?w' ! j)"
          by (rule written_row_mono) (use w1 in simp_all)
        with Suc w1 show ?thesis by simp
      qed
      from unprocessed processed show ?thesis by blast
    qed
    have "dateCalls w \<le> dateCalls ?w'"
      using w1 dc by simp
    with len rows show ?thesis
      unfolding step by blast
  qed
qed

section \<open>Basic facts about a pass\<close>

lemma getAllDevices_ok:
  "dbFault e (dbCalls w) = None \<Longrightarrow>
   getAllDevices e w =
     (Inr (concurrent e (dbCalls w) (table w)),
      w\<lparr>table := concurrent e (dbCalls w) (table w), dbCalls := Suc (dbCalls w)\<rparr>)"
  by (simp add: getAllDevices_def dbQuery_ok)

lemma getAllDevices_fault:
  "dbFault e (dbCalls w) = Some msg \<Longrightarrow>
   getAllDevices e w =
     (Inl (DbError msg),
      w\<lparr>table := concurrent e (dbCalls w) (table w), dbCalls := Suc (dbCalls w)\<rparr>)"
  by (simp add: getAllDevices_def dbQuery_fault)

lemma checkDevice_execLog:
  "execLog (snd (checkDevice e w d)) = execLog w @ [(''ping -c 1 -W 2 '' @ ipAddress d, 5000)]"
  by (cases "dbFault e (dbCalls w)")
     (simp_all add: checkDevice_ok checkDevice_fault after_probe_def)

lemma checkDevice_console:
  "console (snd (checkDevice e w d)) = console w"
  by (cases "dbFault e (dbCalls w)")
     (simp_all add: checkDevice_ok checkDevice_fault after_probe_def)

lemma checkLoop_log:
  assumes "\<forall>j<n. dbFault e (dbCalls w + j) = None"
    and "n = length ds \<or> (n < length ds \<and> dbFault e (dbCalls w + n) = Some msg)"
  shows "fst (checkLoop e w ds) = (if n = length ds then Inr () else Inl (DbError msg)) \<and>
     execLog (snd (checkLoop e w ds)) =
       execLog w @ map (\<lambda>d. (''ping -c 1 -W 2 '' @ ipAddress d, 5000)) (take (Suc n) ds) \<and>
     dbCalls (snd (checkLoop e w ds)) = dbCalls w + min (Suc n) (length ds) \<and>
     console (snd (checkLoop e w ds)) = console w"
  using assms
proof (induction ds arbitrary: w n)
  case Nil
  then show ?case by simp
next
  case (Cons d ds)
  show ?case
  proof (cases n)
    case 0
    with Cons.prems have msg: "dbFault e (dbCalls w) = Some msg"
      by auto
    show ?thesis
      using 0 by (simp add: checkDevice_fault[OF msg] after_probe_def)
  next
    case (Suc n')
    with Cons.prems have ok0: "dbFault e (dbCalls w) = None"
      by auto
    define w1 where "w1 = snd (checkDevice e w d)"
    have step: "checkLoop e w (d # ds) = checkLoop e w1 ds"
      by (simp add: checkDevice_ok[OF ok0] w1_def)
    have w1: "dbCalls w1 = Suc (dbCalls w)"
        "execLog w1 = execLog w @ [(''ping -c 1 -W 2 '' @ ipAddress d, 5000)]"
        "console w1 = console w"
      by (simp_all add: w1_def checkDevice_ok[OF ok0] after_probe_def)
    have ok': "\<forall>j<n'. dbFault e (dbCalls w1 + j) = None"
      using Cons.prems(1) Suc w1 by auto
    have stop': "n' = length ds \<or> (n' < length ds \<and> dbFault e (dbCalls w1 + n') = Some msg)"
      using Cons.prems(2) Suc w1 by auto
    from Cons.IH[OF ok' stop'] show ?thesis
      unfolding step using Suc w1 by simp
  qed
qed

lemma checkLoop_execLog_prefix:
  "\<exists>n\<le>length ds.
     execLog (snd (checkLoop e w ds)) =
       execLog w @ map (\<lambda>d. (''ping -c 1 -W 2 '' @ ipAddress d, 5000)) (take n ds) \<and>
     (fst (checkLoop e w ds) = Inr () \<longrightarrow> n = length ds)"
proof (induction ds arbitrary: w)
  case Nil
  then show ?case by simp
next
  case (Cons d ds)
  show ?case
  proof (cases "dbFault e (dbCalls w)")
    case None
    define w1 where "w1 = snd (checkDevice e w d)"
    have step: "checkLoop e w (d # ds) = checkLoop e w1 ds"
      by (simp add: checkDevice_ok[OF None] w1_def)
    have w1: "execLog w1 = execLog w @ [(''ping -c 1 -W 2 '' @ ipAddress d, 5000)]"
      by (simp add: w1_def checkDevice_execLog)
    from Cons.IH[of w1] obtain n where n: "n \<le> length ds"
      "execLog (snd (checkLoop e w1 ds)) =
         execLog w1 @ map (\<lambda>d. (''ping -c 1 -W 2 '' @ ipAddress d, 5000)) (take n ds)"
      "fst (checkLoop e w1 ds) = Inr () \<longrightarrow> n = length ds"
      by blast
    show ?thesis
      unfolding step using n w1 by (intro exI[where x = "Suc n"]) simp
  next
    case (Some msg)
    show ?thesis
      by (intro exI[where x = 1]) (simp add: checkDevice_fault[OF Some] after_probe_def)
  qed
qed

lemma checkAllDevices_read_fault:
  assumes "dbFault e (dbCalls w) = Some msg"
  shows "checkAllDevices e w =
    (Inr (), w\<lparr>table := concurrent e (dbCalls w) (table w), dbCalls := Suc (dbCalls w),
              console := console w @ [''Device monitor error: '' @ msg]\<rparr>)"
  by (simp add: checkAllDevices_def getAllDevices_fault[OF assms] console_error_def)

lemma checkAllDevices_read_ok:
  assumes "dbFault e (dbCalls w) = None"
  shows "checkAllDevices e w =
    (case checkLoop e (w\<lparr>table := concurrent e (dbCalls w) (table w), dbCalls := Suc (dbCalls w)\<rparr>)
            (concurrent e (dbCalls w) (table w)) of
       (Inl err, w2) \<Rightarrow> (Inr (), console_error w2 (''Device monitor error: '' @ show_error err))
     | (Inr u, w2) \<Rightarrow> (Inr (), w2))"
  by (simp add: checkAllDevices_def getAllDevices_ok[OF assms])

lemma checkAllDevices_never_raises: "fst (checkAllDevices e w) = Inr ()"
  by (simp add: checkAllDevices_def split: prod.splits sum.splits)

lemma checkAllDevices_quiet_rows:
  assumes quiet: "\<forall>k t. concurrent e k t = t"
    and read: "dbFault e (dbCalls w) = None"
    and ok: "\<forall>j<n. dbFault e (Suc (dbCalls w) + j) = None"
    and stop: "n = length (table w) \<or> (n < length (table w) \<and> dbFault e (Suc (dbCalls w) + n) \<noteq> None)"
    and dist: "distinct (map id_col (table w))"
  shows "length (table (snd (checkAllDevices e w))) = length (table w) \<and>
     (\<forall>j<length (table w).
        (n \<le> j \<longrightarrow> table (snd (checkAllDevices e w)) ! j = table w ! j) \<and>
        (j < n \<longrightarrow> written_row e (length (execLog w) + j) (ipAddress (table w ! j))
             (dateCalls w) (dateCalls (snd (checkAllDevices e w)))
             (table w ! j) (table (snd (checkAllDevices e w)) ! j)))"
proof -
  define w0 where "w0 = w\<lparr>table := table w, dbCalls := Suc (dbCalls w)\<rparr>"
  let ?ds = "table w"
  let ?w' = "snd (checkLoop e w0 ?ds)"
  have pass: "table (snd (checkAllDevices e w)) = table ?w'"
      "dateCalls (snd (checkAllDevices e w)) = dateCalls ?w'"
    using quiet
    by (simp_all add: checkAllDevices_read_ok[OF read] w0_def console_error_def split: prod.splits sum.splits)
  have w0: "table w0 = table w" "dbCalls w0 = Suc (dbCalls w)" "execLog w0 = execLog w"
      "dateCalls w0 = dateCalls w"
    by (simp_all add: w0_def)
  have ok0: "\<forall>j<n. dbFault e (dbCalls w0 + j) = None"
    using ok w0 by simp
  have stop0: "n = length ?ds \<or> (n < length ?ds \<and> dbFault e (dbCalls w0 + n) \<noteq> None)"
    using stop w0 by simp
  note R = checkLoop_rows[OF quiet ok0 stop0 dist]
  have n_le: "n \<le> length ?ds" using stop by auto
  have rows: "(n \<le> j \<longrightarrow> table ?w' ! j = table w ! j) \<and>
        (j < n \<longrightarrow> written_row e (length (execLog w) + j) (ipAddress (table w ! j))
             (dateCalls w) (dateCalls ?w') (table w ! j) (table ?w' ! j))"
    if j: "j < length (table w)" for j
  proof -
    from R j w0 have Rj: "(id_col (table w ! j) \<notin> id_col ` set (take n ?ds) \<longrightarrow>
           table ?w' ! j = table w ! j) \<and>
        (\<forall>m<n. id_col (table w ! j) = id_col (?ds ! m) \<longrightarrow>
           written_row e (length (execLog w) + m) (ipAddress (?ds ! m))
             (dateCalls w) (dateCalls ?w') (table w ! j) (table ?w' ! j))"
      by simp
    have "id_col (table w ! j) \<notin> id_col ` set (take n ?ds)" if "n \<le> j"
    proof
      assume "id_col (table w ! j) \<in> id_col ` set (take n ?ds)"
      then obtain m where m: "m < n" "id_col (?ds ! m) = id_col (?ds ! j)"
        using n_le by (auto simp: in_set_conv_nth)
      with \<open>n \<le> j\<close> j n_le have "m < length (map id_col ?ds)" "j < length (map id_col ?ds)"
          "m \<noteq> j" "map id_col ?ds ! m = map id_col ?ds ! j"
        by simp_all
      with dist show False
        by (simp add: distinct_conv_nth)
    qed
    with Rj show ?thesis by auto
  qed
  from R w0 have "length (table ?w') = length (table w)" by simp
  with rows show ?thesis
    unfolding pass by blast
qed

lemma checkAllDevices_log:
  assumes read: "dbFault e (dbCalls w) = None"
    and ok: "\<forall>j<n. dbFault e (Suc (dbCalls w) + j) = None"
    and stop: "n = length (concurrent e (dbCalls w) (table w)) \<or>
       (n < length (concurrent e (dbCalls w) (table w)) \<and> dbFault e (Suc (dbCalls w) + n) = Some msg)"
  shows "execLog (snd (checkAllDevices e w)) =
       execLog w @ map (\<lambda>d. (''ping -c 1 -W 2 '' @ ipAddress d, 5000))
                     (take (Suc n) (concurrent e (dbCalls w) (table w))) \<and>
     dbCalls (snd (checkAllDevices e w)) =
       Suc (dbCalls w) + min (Suc n) (length (concurrent e (dbCalls w) (table w))) \<and>
     console (snd (checkAllDevices e w)) =
       (if n = length (concurrent e (dbCalls w) (table w)) then console w
        else console w @ [''Device monitor error: '' @ msg])"
proof -
  let ?T = "concurrent e (dbCalls w) (table w)"
  define w0 where "w0 = w\<lparr>table := ?T, dbCalls := Suc (dbCalls w)\<rparr>"
  have w0: "dbCalls w0 = Suc (dbCalls w)" "execLog w0 = execLog w" "console w0 = console w"
    by (simp_all add: w0_def)
  have ok0: "\<forall>j<n. dbFault e (dbCalls w0 + j) = None"
    using ok w0 by simp
  have stop0: "n = length ?T \<or> (n < length ?T \<and> dbFault e (dbCalls w0 + n) = Some msg)"
    using stop w0 by simp
  note L = checkLoop_log[OF ok0 stop0]
  obtain res w2 where r: "checkLoop e w0 ?T = (res, w2)"
    by (cases "checkLoop e w0 ?T")
  with L w0 have L': "res = (if n = length ?T then Inr () else Inl (DbError msg))"
      "execLog w2 = execLog w @ map (\<lambda>d. (''ping -c 1 -W 2 '' @ ipAddress d, 5000)) (take (Suc n) ?T)"
      "dbCalls w2 = Suc (dbCalls w) + min (Suc n) (length ?T)"
      "console w2 = console w"
    by simp_all
  show ?thesis
    using L' r unfolding checkAllDevices_read_ok[OF read] w0_def[symmetric]
    by (simp add: console_error_def)
qed

text \<open>Unfolding everything, for evaluating a pass on the example data.\<close>

lemmas pass_defs = checkAllDevices_def getAllDevices_def dbQuery_def checkDevice_def
  pingDevice_def execSync_def updateDeviceStatus_def newDate_def sql_update_def set_row_def
  first_row_def console_error_def Let_def

lemmas demo_defs = quiet_env_def deleting_env_def failing_write_env_def failing_read_env_def
  two_devices_def device_A_def device_B_def

section \<open>The status write of the store\<close>

text \<open>
  C8. \<open>updateDeviceStatus\<close> is a partial update. When the statement succeeds, every row
  with the given id gets the given status and \<open>lastCheckedAt\<close> = now (the clock as
  \<open>updateDeviceStatus\<close> reads it); its \<open>lastSeenAt\<close> becomes the argument when one is
  supplied and is kept otherwise; its columns id, name, ipAddress, macAddress,
  deviceType, os and description are kept; all other rows are kept. The call returns
  the updated device, or not-found (\<open>None\<close>) when no row has the id.
\<close>

theorem updateDeviceStatus_partial_update:
  assumes "dbFault e (dbCalls w) = None"
  shows "\<exists>res w'. updateDeviceStatus e w i s seen = (Inr res, w')
     \<and> length (table w') = length (concurrent e (dbCalls w) (table w))
     \<and> (\<forall>k < length (table w').
          (let r = concurrent e (dbCalls w) (table w) ! k; r' = table w' ! k in
             (id_col r \<noteq> i \<longrightarrow> r' = r) \<and>
             (id_col r = i \<longrightarrow>
                status r' = s \<and>
                lastCheckedAt r' = Some (clockAt e (dateCalls w)) \<and>
                (seen = None \<longrightarrow> lastSeenAt r' = lastSeenAt r) \<and>
                (seen \<noteq> None \<longrightarrow> lastSeenAt r' = seen) \<and>
                id_col r' = id_col r \<and> name r' = name r \<and> ipAddress r' = ipAddress r \<and>
                macAddress r' = macAddress r \<and> deviceType r' = deviceType r \<and>
                os r' = os r \<and> description r' = description r)))
     \<and> ((\<forall>r \<in> set (concurrent e (dbCalls w) (table w)). id_col r \<noteq> i) \<longrightarrow> res = None)
     \<and> ((\<exists>r \<in> set (concurrent e (dbCalls w) (table w)). id_col r = i) \<longrightarrow>
           (\<exists>r'. res = Some r' \<and> r' \<in> set (table w') \<and> id_col r' = i \<and> status r' = s
                 \<and> lastCheckedAt r' = Some (clockAt e (dateCalls w))))"
proof -
  let ?T = "concurrent e (dbCalls w) (table w)"
  let ?f = "status_written s (clockAt e (dateCalls w)) seen"
  let ?T' = "map (\<lambda>r. if id_col r = i then ?f r else r) ?T"
  let ?res = "first_row (map ?f (filter (\<lambda>r. id_col r = i) ?T))"
  let ?w' = "w\<lparr>table := ?T', dbCalls := Suc (dbCalls w), dateCalls := Suc (dateCalls w)\<rparr>"
  have eq: "updateDeviceStatus e w i s seen = (Inr ?res, ?w')"
    using assms by (rule updateDeviceStatus_ok)
  have len: "length (table ?w') = length ?T"
    by simp
  have rows: "\<forall>k < length (table ?w').
          (let r = ?T ! k; r' = table ?w' ! k in
             (id_col r \<noteq> i \<longrightarrow> r' = r) \<and>
             (id_col r = i \<longrightarrow>
                status r' = s \<and>
                lastCheckedAt r' = Some (clockAt e (dateCalls w)) \<and>
                (seen = None \<longrightarrow> lastSeenAt r' = lastSeenAt r) \<and>
                (seen \<noteq> None \<longrightarrow> lastSeenAt r' = seen) \<and>
                id_col r' = id_col r \<and> name r' = name r \<and> ipAddress r' = ipAddress r \<and>
                macAddress r' = macAddress r \<and> deviceType r' = deviceType r \<and>
                os r' = os r \<and> description r' = description r))"
    by (auto simp: Let_def status_written_def)
  have absent: "(\<forall>r \<in> set ?T. id_col r \<noteq> i) \<longrightarrow> ?res = None"
    by (simp add: first_row_None_iff filter_empty_conv)
  have present: "(\<exists>r \<in> set ?T. id_col r = i) \<longrightarrow>
           (\<exists>r'. ?res = Some r' \<and> r' \<in> set (table ?w') \<and> id_col r' = i \<and> status r' = s
                 \<and> lastCheckedAt r' = Some (clockAt e (dateCalls w)))"
  proof
    assume "\<exists>r \<in> set ?T. id_col r = i"
    then have "filter (\<lambda>r. id_col r = i) ?T \<noteq> []"
      by (simp add: filter_empty_conv)
    then obtain r where r: "first_row (filter (\<lambda>r. id_col r = i) ?T) = Some r"
      by (cases "filter (\<lambda>r. id_col r = i) ?T") (simp_all add: first_row_def)
    then have "r \<in> set ?T" "id_col r = i"
      using first_row_filter_Some[OF r] by simp_all
    then have "?f r \<in> set (table ?w')"
      by force
    with r \<open>id_col r = i\<close>
    show "\<exists>r'. ?res = Some r' \<and> r' \<in> set (table ?w') \<and> id_col r' = i \<and> status r' = s
                 \<and> lastCheckedAt r' = Some (clockAt e (dateCalls w))"
      by (auto simp: first_row_map status_written_def)
  qed
  show ?thesis
    unfolding eq using len rows absent present by blast
qed

theorem updateDeviceStatus_partial_update_witness:
  "dbFault quiet_env (dbCalls two_devices) = None \<and>
   (\<exists>r' w'. updateDeviceStatus quiet_env two_devices ''a'' ''online'' (Some 42) = (Inr (Some r'), w')
      \<and> status r' = ''online'' \<and> lastCheckedAt r' = Some 1000
      \<and> status (table w' ! 0) = ''online'' \<and> lastSeenAt (table w' ! 0) = Some 42
      \<and> name (table w' ! 0) = ''A'' \<and> table w' ! 1 = device_B)"
proof -
  have h: "dbFault quiet_env (dbCalls two_devices) = None"
    by (simp add: quiet_env_def)
  have T: "concurrent quiet_env (dbCalls two_devices) (table two_devices) = [device_A, device_B]"
    by (simp add: quiet_env_def two_devices_def)
  have ids: "id_col device_A = ''a''" "id_col device_B \<noteq> ''a''" "name device_A = ''A''"
    by (simp_all add: device_A_def device_B_def)
  have c: "clockAt quiet_env (dateCalls two_devices) = 1000"
    by (simp add: quiet_env_def two_devices_def)
  from updateDeviceStatus_partial_update[OF h, of "''a''" "''online''" "Some 42"]
  obtain res w' where
    eq: "updateDeviceStatus quiet_env two_devices ''a'' ''online'' (Some 42) = (Inr res, w')"
    and len: "length (table w') = 2"
    and rows: "\<forall>k < length (table w').
          (let r = [device_A, device_B] ! k; r' = table w' ! k in
             (id_col r \<noteq> ''a'' \<longrightarrow> r' = r) \<and>
             (id_col r = ''a'' \<longrightarrow>
                status r' = ''online'' \<and>
                lastCheckedAt r' = Some 1000 \<and>
                (Some (42::nat) = None \<longrightarrow> lastSeenAt r' = lastSeenAt r) \<and>
                (Some (42::nat) \<noteq> None \<longrightarrow> lastSeenAt r' = Some 42) \<and>
                id_col r' = id_col r \<and> name r' = name r \<and> ipAddress r' = ipAddress r \<and>
                macAddress r' = macAddress r \<and> deviceType r' = deviceType r \<and>
                os r' = os r \<and> description r' = description r))"
    and present: "(\<exists>r \<in> set [device_A, device_B]. id_col r = ''a'') \<longrightarrow>
           (\<exists>r'. res = Some r' \<and> r' \<in> set (table w') \<and> id_col r' = ''a'' \<and> status r' = ''online''
                 \<and> lastCheckedAt r' = Some 1000)"
    unfolding T c by auto
  from present ids obtain r' where r': "res = Some r'" "status r' = ''online''"
      "lastCheckedAt r' = Some 1000"
    by auto
  from rows[rule_format, of 0] len ids
  have row0: "status (table w' ! 0) = ''online''" "lastSeenAt (table w' ! 0) = Some 42"
      "name (table w' ! 0) = ''A''"
    by (simp_all add: Let_def)
  from rows[rule_format, of 1] len ids have row1: "table w' ! 1 = device_B"
    by (simp add: Let_def)
  show ?thesis
    using h eq r' row0 row1 by auto
qed

section \<open>The probe\<close>

text \<open>
  C5, as the specification states it, fails on the code: not every device of a pass is
  probed. In the example the status write for device A fails; device B is in the list
  that the pass read, the pass returns normally, and no process was spawned for the
  address of B.
\<close>

theorem unprobed_device_counterexample:
  "fst (getAllDevices failing_write_env two_devices) = Inr [device_A, device_B]
   \<and> ipAddress device_B = ''192.168.1.99''
   \<and> fst (checkAllDevices failing_write_env two_devices) = Inr ()
   \<and> execLog (snd (checkAllDevices failing_write_env two_devices)) =
        [(''ping -c 1 -W 2 192.168.1.10'', 5000)]"
  by (simp add: pass_defs demo_defs)

text \<open>
  C5, amended. A probe is one child process and is never repeated: \<open>pingDevice\<close> spawns
  exactly one process, the command \<open>ping -c 1 -W 2\<close> followed by the address (one echo
  request, a wait of 2 seconds), with the \<open>timeout\<close> option 5000 ms; it never throws, and
  returns false exactly when \<open>execSync\<close> throws, whatever the failure (nonzero exit,
  timeout, the process not starting), for every address string. The loop body spawns
  exactly this one process for its device, whether or not the write that follows fails.
  The processes that a whole pass spawns are: none, when the read of the device list
  fails; one for every device of the list read, in list order, when no status write
  fails; and one for every device up to and including the first one whose status write
  fails, and none for the devices after it, otherwise.
\<close>

theorem probes_of_a_pass:
  "pingDevice e w ip =
     (Inr (\<not> isl (execOracle e (length (execLog w)) (''ping -c 1 -W 2 '' @ ip) 5000)),
      w\<lparr>execLog := execLog w @ [(''ping -c 1 -W 2 '' @ ip, 5000)]\<rparr>)
   \<and> execLog (snd (checkDevice e w d)) = execLog w @ [(''ping -c 1 -W 2 '' @ ipAddress d, 5000)]
   \<and> (\<forall>msg. dbFault e (dbCalls w) = Some msg \<longrightarrow>
         execLog (snd (checkAllDevices e w)) = execLog w)
   \<and> (dbFault e (dbCalls w) = None \<and>
       (\<forall>j<length (concurrent e (dbCalls w) (table w)). dbFault e (Suc (dbCalls w) + j) = None) \<longrightarrow>
         execLog (snd (checkAllDevices e w)) =
           execLog w @ map (\<lambda>d. (''ping -c 1 -W 2 '' @ ipAddress d, 5000))
                         (concurrent e (dbCalls w) (table w)))
   \<and> (dbFault e (dbCalls w) = None \<and> n < length (concurrent e (dbCalls w) (table w)) \<and>
       (\<forall>j<n. dbFault e (Suc (dbCalls w) + j) = None) \<and>
       dbFault e (Suc (dbCalls w) + n) \<noteq> None \<longrightarrow>
         execLog (snd (checkAllDevices e w)) =
           execLog w @ map (\<lambda>d. (''ping -c 1 -W 2 '' @ ipAddress d, 5000))
                         (take (Suc n) (concurrent e (dbCalls w) (table w))))"
proof -
  let ?T = "concurrent e (dbCalls w) (table w)"
  have ping: "pingDevice e w ip =
     (Inr (\<not> isl (execOracle e (length (execLog w)) (''ping -c 1 -W 2 '' @ ip) 5000)),
      w\<lparr>execLog := execLog w @ [(''ping -c 1 -W 2 '' @ ip, 5000)]\<rparr>)"
    using pingDevice_eq[of e w ip] by (simp add: reachable_def)
  have body: "execLog (snd (checkDevice e w d)) =
      execLog w @ [(''ping -c 1 -W 2 '' @ ipAddress d, 5000)]"
    by (rule checkDevice_execLog)
  have noread: "execLog (snd (checkAllDevices e w)) = execLog w"
    if "dbFault e (dbCalls w) = Some msg" for msg
    by (simp add: checkAllDevices_read_fault[OF that])
  have whole: "execLog (snd (checkAllDevices e w)) =
      execLog w @ map (\<lambda>d. (''ping -c 1 -W 2 '' @ ipAddress d, 5000)) ?T"
    if read: "dbFault e (dbCalls w) = None"
      and ok: "\<forall>j<length ?T. dbFault e (Suc (dbCalls w) + j) = None"
    using checkAllDevices_log[OF read ok, of undefined] by simp
  have part: "execLog (snd (checkAllDevices e w)) =
      execLog w @ map (\<lambda>d. (''ping -c 1 -W 2 '' @ ipAddress d, 5000)) (take (Suc n) ?T)"
    if read: "dbFault e (dbCalls w) = None" and n: "n < length ?T"
      and ok: "\<forall>j<n. dbFault e (Suc (dbCalls w) + j) = None"
      and bad: "dbFault e (Suc (dbCalls w) + n) \<noteq> None"
  proof -
    from bad obtain msg where "dbFault e (Suc (dbCalls w) + n) = Some msg"
      by auto
    with n have stop: "n = length ?T \<or> (n < length ?T \<and> dbFault e (Suc (dbCalls w) + n) = Some msg)"
      by simp
    from checkAllDevices_log[OF read ok stop] show ?thesis
      by simp
  qed
  from ping body noread whole part show ?thesis
    by blast
qed

theorem probes_of_a_pass_witness:
  "pingDevice quiet_env two_devices ''192.168.1.99'' =
     (Inr False, two_devices\<lparr>execLog := [(''ping -c 1 -W 2 192.168.1.99'', 5000)]\<rparr>)
   \<and> execLog (snd (checkAllDevices failing_read_env two_devices)) = []
   \<and> execLog (snd (checkAllDevices quiet_env two_devices)) =
        [(''ping -c 1 -W 2 192.168.1.10'', 5000), (''ping -c 1 -W 2 192.168.1.99'', 5000)]
   \<and> execLog (snd (checkAllDevices failing_write_env two_devices)) =
        [(''ping -c 1 -W 2 192.168.1.10'', 5000)]"
proof -
  have T: "concurrent quiet_env (dbCalls two_devices) (table two_devices) = [device_A, device_B]"
      "concurrent failing_write_env (dbCalls two_devices) (table two_devices) = [device_A, device_B]"
    by (simp_all add: demo_defs)
  have rd: "dbFault failing_read_env (dbCalls two_devices) = Some ''connection lost''"
    by (simp add: demo_defs)
  have good: "dbFault quiet_env (dbCalls two_devices) = None \<and>
    (\<forall>j<length (concurrent quiet_env (dbCalls two_devices) (table two_devices)).
        dbFault quiet_env (Suc (dbCalls two_devices) + j) = None)"
    by (simp add: demo_defs)
  have bad: "dbFault failing_write_env (dbCalls two_devices) = None \<and>
      0 < length (concurrent failing_write_env (dbCalls two_devices) (table two_devices)) \<and>
      (\<forall>j<0. dbFault failing_write_env (Suc (dbCalls two_devices) + j) = None) \<and>
      dbFault failing_write_env (Suc (dbCalls two_devices) + 0) \<noteq> None"
    by (simp add: demo_defs)
  note p = probes_of_a_pass[of quiet_env two_devices "''192.168.1.99''" device_A 0, THEN conjunct1]
  note a = probes_of_a_pass[of failing_read_env two_devices "''''" device_A 0,
      THEN conjunct2, THEN conjunct2, THEN conjunct1, rule_format, OF rd]
  note b = probes_of_a_pass[of quiet_env two_devices "''''" device_A 0,
      THEN conjunct2, THEN conjunct2, THEN conjunct2, THEN conjunct1, THEN mp, OF good]
  note c = probes_of_a_pass[of failing_write_env two_devices "''''" device_A 0,
      THEN conjunct2, THEN conjunct2, THEN conjunct2, THEN conjunct2, THEN mp, OF bad]
  have p': "pingDevice quiet_env two_devices ''192.168.1.99'' =
     (Inr False, two_devices\<lparr>execLog := [(''ping -c 1 -W 2 192.168.1.99'', 5000)]\<rparr>)"
    using p by (simp add: quiet_env_def two_devices_def)
  from a b c show ?thesis
    unfolding T using p' by (simp add: demo_defs)
qed

section \<open>A write to a device that is gone\<close>

text \<open>
  C6. When no row of the table has the identifier (the device was deleted after the pass
  read its list, say) and the statement itself succeeds, \<open>updateDeviceStatus\<close> returns
  not-found (\<open>None\<close>) without throwing, the table is as the statement found it, and the
  loop of the pass goes on with the remaining devices, with nothing logged.
\<close>

theorem status_write_to_missing_device:
  assumes ok: "dbFault e (dbCalls w) = None"
    and absent: "\<forall>r\<in>set (concurrent e (dbCalls w) (table w)). id_col r \<noteq> id_col d"
  shows "updateDeviceStatus e w (id_col d) s seen =
       (Inr None, w\<lparr>table := concurrent e (dbCalls w) (table w),
                     dbCalls := Suc (dbCalls w), dateCalls := Suc (dateCalls w)\<rparr>)
     \<and> (\<exists>w1. checkDevice e w d = (Inr (), w1)
            \<and> table w1 = concurrent e (dbCalls w) (table w)
            \<and> console w1 = console w
            \<and> checkLoop e w (d # ds) = checkLoop e w1 ds)"
proof -
  have same: "map (\<lambda>r. if id_col r = id_col d then f r else r) (concurrent e (dbCalls w) (table w))
      = concurrent e (dbCalls w) (table w)" for f
    using absent by (simp add: map_idI)
  have none: "filter (\<lambda>r. id_col r = id_col d) (concurrent e (dbCalls w) (table w)) = []"
    using absent by (simp add: filter_empty_conv)
  have "updateDeviceStatus e w (id_col d) s seen =
       (Inr None, w\<lparr>table := concurrent e (dbCalls w) (table w),
                     dbCalls := Suc (dbCalls w), dateCalls := Suc (dateCalls w)\<rparr>)"
    by (simp add: updateDeviceStatus_ok[OF ok] same none first_row_def)
  moreover have "checkDevice e w d =
      (Inr (), (after_probe e w d)\<lparr>table := concurrent e (dbCalls w) (table w)\<rparr>)"
    by (simp add: checkDevice_ok[OF ok] same)
  ultimately show ?thesis
    by simp
qed

theorem status_write_to_missing_device_witness:
  "updateDeviceStatus deleting_env (two_devices\<lparr>dbCalls := 1\<rparr>) ''a'' ''online'' (Some 1000) =
     (Inr None, two_devices\<lparr>table := [device_B], dbCalls := 2, dateCalls := 1\<rparr>)
   \<and> fst (checkLoop deleting_env (two_devices\<lparr>dbCalls := 1\<rparr>) [device_A, device_B]) = Inr ()
   \<and> map status (table (snd (checkLoop deleting_env (two_devices\<lparr>dbCalls := 1\<rparr>)
                        [device_A, device_B]))) = [''offline'']
   \<and> console (snd (checkLoop deleting_env (two_devices\<lparr>dbCalls := 1\<rparr>)
                        [device_A, device_B])) = []"
proof -
  let ?w = "two_devices\<lparr>dbCalls := 1\<rparr>"
  have ok: "dbFault deleting_env (dbCalls ?w) = None"
    by (simp add: demo_defs)
  have T: "concurrent deleting_env (dbCalls ?w) (table ?w) = [device_B]"
    by (simp add: demo_defs)
  have absent: "\<forall>r\<in>set (concurrent deleting_env (dbCalls ?w) (table ?w)). id_col r \<noteq> id_col device_A"
    unfolding T by (simp add: device_A_def device_B_def)
  from status_write_to_missing_device[OF ok absent, of "''online''" "Some 1000" "[device_B]"]
  obtain w1 where
    upd: "updateDeviceStatus deleting_env ?w (id_col device_A) ''online'' (Some 1000) =
       (Inr None, ?w\<lparr>table := concurrent deleting_env (dbCalls ?w) (table ?w),
                     dbCalls := Suc (dbCalls ?w), dateCalls := Suc (dateCalls ?w)\<rparr>)"
    and w1: "checkDevice deleting_env ?w device_A = (Inr (), w1)"
      "table w1 = concurrent deleting_env (dbCalls ?w) (table ?w)" "console w1 = console ?w"
    and step: "checkLoop deleting_env ?w [device_A, device_B] = checkLoop deleting_env w1 [device_B]"
    by blast
  have c1: "updateDeviceStatus deleting_env ?w ''a'' ''online'' (Some 1000) =
     (Inr None, two_devices\<lparr>table := [device_B], dbCalls := 2, dateCalls := 1\<rparr>)"
    using upd unfolding T by (simp add: device_A_def two_devices_def)
  have w1_eq: "w1 = snd (checkDevice deleting_env ?w device_A)"
    using w1(1) by simp
  have rest: "fst (checkLoop deleting_env w1 [device_B]) = Inr ()
    \<and> map status (table (snd (checkLoop deleting_env w1 [device_B]))) = [''offline'']
    \<and> console (snd (checkLoop deleting_env w1 [device_B])) = []"
    unfolding w1_eq by (simp add: pass_defs demo_defs)
  show ?thesis
    using c1 rest unfolding step by simp
qed

section \<open>The status argument is not validated\<close>

text \<open>
  C10. \<open>updateDeviceStatus\<close> writes its status argument as it is: for every string \<open>s\<close>
  and every identifier that a row of the table has, a successful call returns a row with
  status \<open>s\<close>, and every row with that identifier has status \<open>s\<close> afterwards. Only the
  caller keeps the status among the known values: the loop body of the monitor writes
  \<open>"online"\<close> or \<open>"offline"\<close>.
\<close>

theorem updateDeviceStatus_any_status:
  assumes ok: "dbFault e (dbCalls w) = None"
    and row: "r \<in> set (concurrent e (dbCalls w) (table w))" "id_col r = i"
  shows "(\<exists>r' w'. updateDeviceStatus e w i s seen = (Inr (Some r'), w')
           \<and> id_col r' = i \<and> status r' = s
           \<and> (\<exists>x\<in>set (table w'). id_col x = i)
           \<and> (\<forall>x\<in>set (table w'). id_col x = i \<longrightarrow> status x = s))
     \<and> (\<forall>x\<in>set (table (snd (checkDevice e w d))).
           id_col x = id_col d \<longrightarrow> status x = ''online'' \<or> status x = ''offline'')"
proof -
  let ?T = "concurrent e (dbCalls w) (table w)"
  let ?f = "status_written s (clockAt e (dateCalls w)) seen"
  have f: "id_col (?f x) = id_col x" "status (?f x) = s" for x
    by (simp_all add: status_written_def)
  from row have "filter (\<lambda>r. id_col r = i) ?T \<noteq> []"
    by (auto simp: filter_empty_conv)
  then obtain r0 where r0: "first_row (filter (\<lambda>r. id_col r = i) ?T) = Some r0"
    by (cases "filter (\<lambda>r. id_col r = i) ?T") (simp_all add: first_row_def)
  then have r0i: "id_col r0 = i"
    using first_row_filter_Some[OF r0] by simp
  have "\<exists>x\<in>set (map (\<lambda>r. if id_col r = i then ?f r else r) ?T). id_col x = i"
    using row f by force
  moreover have "\<forall>x\<in>set (map (\<lambda>r. if id_col r = i then ?f r else r) ?T). id_col x = i \<longrightarrow> status x = s"
    using f by auto
  ultimately have first: "\<exists>r' w'. updateDeviceStatus e w i s seen = (Inr (Some r'), w')
           \<and> id_col r' = i \<and> status r' = s
           \<and> (\<exists>x\<in>set (table w'). id_col x = i)
           \<and> (\<forall>x\<in>set (table w'). id_col x = i \<longrightarrow> status x = s)"
    using r0 r0i f by (simp add: updateDeviceStatus_ok[OF ok] first_row_map)
  have second: "\<forall>x\<in>set (table (snd (checkDevice e w d))).
           id_col x = id_col d \<longrightarrow> status x = ''online'' \<or> status x = ''offline''"
    by (auto simp: checkDevice_ok[OF ok] probe_update_def status_written_def)
  from first second show ?thesis by blast
qed

theorem updateDeviceStatus_any_status_witness:
  "\<exists>r' w'. updateDeviceStatus quiet_env two_devices ''b'' ''banana'' None = (Inr (Some r'), w')
      \<and> status r' = ''banana'' \<and> map status (table w') = [''unknown'', ''banana'']"
proof -
  have ok: "dbFault quiet_env (dbCalls two_devices) = None"
    by (simp add: demo_defs)
  have row: "device_B \<in> set (concurrent quiet_env (dbCalls two_devices) (table two_devices))"
      "id_col device_B = ''b''"
    by (simp_all add: demo_defs)
  from updateDeviceStatus_any_status[OF ok row, of "''banana''" None device_A]
  obtain r' w' where
    a: "updateDeviceStatus quiet_env two_devices ''b'' ''banana'' None = (Inr (Some r'), w')"
    and b: "status r' = ''banana''"
    by blast
  from a have "w' = snd (updateDeviceStatus quiet_env two_devices ''b'' ''banana'' None)"
    by simp
  then have c: "map status (table w') = [''unknown'', ''banana'']"
    by (simp add: pass_defs demo_defs)
  from a b c show ?thesis
    by (intro exI[of _ r'] exI[of _ w'] conjI)
qed

section \<open>A pass never throws\<close>

text \<open>
  C4. For every environment (every behaviour of the probes, of the database and of the
  concurrent handlers) a pass returns normally: \<open>checkAllDevices\<close> is a total function
  whose result is never an error. When the read of the device list fails, the pass
  spawns no process and writes no row, and logs the error. When the read succeeds and the
  next statement (the first status write) fails, the pass writes no row either: the table
  is what the concurrent handlers made of it.
\<close>

theorem checkAllDevices_never_throws:
  "fst (checkAllDevices e w) = Inr ()
   \<and> (\<forall>msg. dbFault e (dbCalls w) = Some msg \<longrightarrow>
         snd (checkAllDevices e w) =
           w\<lparr>table := concurrent e (dbCalls w) (table w), dbCalls := Suc (dbCalls w),
             console := console w @ [''Device monitor error: '' @ msg]\<rparr>)
   \<and> (dbFault e (dbCalls w) = None \<and> dbFault e (Suc (dbCalls w)) \<noteq> None \<longrightarrow>
         table (snd (checkAllDevices e w)) =
           (if concurrent e (dbCalls w) (table w) = [] then []
            else concurrent e (Suc (dbCalls w)) (concurrent e (dbCalls w) (table w))))"
proof -
  have third: "table (snd (checkAllDevices e w)) =
           (if concurrent e (dbCalls w) (table w) = [] then []
            else concurrent e (Suc (dbCalls w)) (concurrent e (dbCalls w) (table w)))"
    if ok: "dbFault e (dbCalls w) = None" and bad: "dbFault e (Suc (dbCalls w)) \<noteq> None"
  proof (cases "concurrent e (dbCalls w) (table w)")
    case Nil
    then show ?thesis
      by (simp add: checkAllDevices_read_ok[OF ok])
  next
    case (Cons d ds)
    from bad obtain msg where msg: "dbFault e (Suc (dbCalls w)) = Some msg"
      by auto
    show ?thesis
      using msg by (simp add: checkAllDevices_read_ok[OF ok] Cons checkDevice_fault console_error_def)
  qed
  show ?thesis
    using third by (simp add: checkAllDevices_never_raises checkAllDevices_read_fault)
qed

theorem checkAllDevices_never_throws_witness:
  "checkAllDevices failing_read_env two_devices =
     (Inr (), two_devices\<lparr>dbCalls := 1, console := [''Device monitor error: connection lost'']\<rparr>)
   \<and> fst (checkAllDevices failing_write_env two_devices) = Inr ()
   \<and> table (snd (checkAllDevices failing_write_env two_devices)) = [device_A, device_B]"
proof -
  have rd: "dbFault failing_read_env (dbCalls two_devices) = Some ''connection lost''"
    by (simp add: demo_defs)
  have wr: "dbFault failing_write_env (dbCalls two_devices) = None
      \<and> dbFault failing_write_env (Suc (dbCalls two_devices)) \<noteq> None"
    by (simp add: demo_defs)
  have "snd (checkAllDevices failing_read_env two_devices) =
      two_devices\<lparr>dbCalls := 1, console := [''Device monitor error: connection lost'']\<rparr>"
    using checkAllDevices_never_throws[of failing_read_env two_devices] rd
    by (simp add: demo_defs)
  moreover have "fst (checkAllDevices failing_read_env two_devices) = Inr ()"
    using checkAllDevices_never_throws[of failing_read_env two_devices] by simp
  moreover have "fst (checkAllDevices failing_write_env two_devices) = Inr ()"
    using checkAllDevices_never_throws[of failing_write_env two_devices] by simp
  moreover have "table (snd (checkAllDevices failing_write_env two_devices)) = [device_A, device_B]"
    using checkAllDevices_never_throws[of failing_write_env two_devices] wr
    by (simp add: demo_defs)
  ultimately show ?thesis
    by (simp add: prod_eq_iff)
qed

section \<open>The write-back of a probe\<close>

text \<open>
  C1. The write-back of the pass, for every device it probes. \<open>pingDevice\<close> reports
  reachable exactly when the child process succeeds. When the write succeeds, the loop
  body sets, in every row with the identifier of the device: for a reachable device,
  status \<open>"online"\<close>, \<open>lastSeenAt\<close> to the time it read after the probe and
  \<open>lastCheckedAt\<close> to the time \<open>updateDeviceStatus\<close> read next; for an unreachable device,
  status \<open>"offline"\<close> and \<open>lastCheckedAt\<close> to the time \<open>updateDeviceStatus\<close> read, with
  \<open>lastSeenAt\<close> left as it was. Over a whole pass in which no database statement fails
  and no other handler touches the table (identifiers being a primary key), every row
  of the table ends as online, with both timestamps read during the pass, when its probe
  reported reachable, and as offline, with \<open>lastCheckedAt\<close> read during the pass and
  \<open>lastSeenAt\<close> as before the pass, when it did not; the other columns are kept.
\<close>

theorem probe_write_back:
  "fst (pingDevice e w (ipAddress d)) = Inr (reachable e (length (execLog w)) (ipAddress d))
   \<and> (dbFault e (dbCalls w) = None \<longrightarrow>
        table (snd (checkDevice e w d)) =
          map (\<lambda>r. if id_col r = id_col d
                   then (if reachable e (length (execLog w)) (ipAddress d)
                         then r\<lparr>status := ''online'',
                                lastCheckedAt := Some (clockAt e (Suc (dateCalls w))),
                                lastSeenAt := Some (clockAt e (dateCalls w))\<rparr>
                         else r\<lparr>status := ''offline'',
                                lastCheckedAt := Some (clockAt e (dateCalls w))\<rparr>)
                   else r)
              (concurrent e (dbCalls w) (table w)))
   \<and> ((\<forall>k t. concurrent e k t = t) \<and> (\<forall>k. dbFault e k = None) \<and> distinct (map id_col (table w)) \<longrightarrow>
        length (table (snd (checkAllDevices e w))) = length (table w) \<and>
        (\<forall>j<length (table w).
           same_columns (table w ! j) (table (snd (checkAllDevices e w)) ! j) \<and>
           (reachable e (length (execLog w) + j) (ipAddress (table w ! j)) \<longrightarrow>
              status (table (snd (checkAllDevices e w)) ! j) = ''online'' \<and>
              (\<exists>k. dateCalls w \<le> k \<and> Suc k < dateCalls (snd (checkAllDevices e w)) \<and>
                   lastSeenAt (table (snd (checkAllDevices e w)) ! j) = Some (clockAt e k) \<and>
                   lastCheckedAt (table (snd (checkAllDevices e w)) ! j) = Some (clockAt e (Suc k)))) \<and>
           (\<not> reachable e (length (execLog w) + j) (ipAddress (table w ! j)) \<longrightarrow>
              status (table (snd (checkAllDevices e w)) ! j) = ''offline'' \<and>
              (\<exists>k. dateCalls w \<le> k \<and> k < dateCalls (snd (checkAllDevices e w)) \<and>
                   lastCheckedAt (table (snd (checkAllDevices e w)) ! j) = Some (clockAt e k)) \<and>
              lastSeenAt (table (snd (checkAllDevices e w)) ! j) = lastSeenAt (table w ! j))))"
proof -
  have probe: "fst (pingDevice e w (ipAddress d)) = Inr (reachable e (length (execLog w)) (ipAddress d))"
    by (simp add: pingDevice_eq)
  have body: "table (snd (checkDevice e w d)) =
          map (\<lambda>r. if id_col r = id_col d
                   then (if reachable e (length (execLog w)) (ipAddress d)
                         then r\<lparr>status := ''online'',
                                lastCheckedAt := Some (clockAt e (Suc (dateCalls w))),
                                lastSeenAt := Some (clockAt e (dateCalls w))\<rparr>
                         else r\<lparr>status := ''offline'',
                                lastCheckedAt := Some (clockAt e (dateCalls w))\<rparr>)
                   else r)
              (concurrent e (dbCalls w) (table w))"
    if ok: "dbFault e (dbCalls w) = None"
    by (simp add: checkDevice_ok[OF ok] probe_update_def status_written_def)
  have pass: "length (table (snd (checkAllDevices e w))) = length (table w) \<and>
        (\<forall>j<length (table w).
           same_columns (table w ! j) (table (snd (checkAllDevices e w)) ! j) \<and>
           (reachable e (length (execLog w) + j) (ipAddress (table w ! j)) \<longrightarrow>
              status (table (snd (checkAllDevices e w)) ! j) = ''online'' \<and>
              (\<exists>k. dateCalls w \<le> k \<and> Suc k < dateCalls (snd (checkAllDevices e w)) \<and>
                   lastSeenAt (table (snd (checkAllDevices e w)) ! j) = Some (clockAt e k) \<and>
                   lastCheckedAt (table (snd (checkAllDevices e w)) ! j) = Some (clockAt e (Suc k)))) \<and>
           (\<not> reachable e (length (execLog w) + j) (ipAddress (table w ! j)) \<longrightarrow>
              status (table (snd (checkAllDevices e w)) ! j) = ''offline'' \<and>
              (\<exists>k. dateCalls w \<le> k \<and> k < dateCalls (snd (checkAllDevices e w)) \<and>
                   lastCheckedAt (table (snd (checkAllDevices e w)) ! j) = Some (clockAt e k)) \<and>
              lastSeenAt (table (snd (checkAllDevices e w)) ! j) = lastSeenAt (table w ! j)))"
    if quiet: "\<forall>k t. concurrent e k t = t" and nofault: "\<forall>k. dbFault e k = None"
      and dist: "distinct (map id_col (table w))"
  proof -
    have "length (table (snd (checkAllDevices e w))) = length (table w) \<and>
     (\<forall>j<length (table w).
        (length (table w) \<le> j \<longrightarrow> table (snd (checkAllDevices e w)) ! j = table w ! j) \<and>
        (j < length (table w) \<longrightarrow> written_row e (length (execLog w) + j) (ipAddress (table w ! j))
             (dateCalls w) (dateCalls (snd (checkAllDevices e w)))
             (table w ! j) (table (snd (checkAllDevices e w)) ! j)))"
      using nofault by (intro checkAllDevices_quiet_rows[OF quiet _ _ _ dist]) simp_all
    then show ?thesis
      unfolding written_row_def by auto
  qed
  from probe body pass show ?thesis
    by blast
qed

theorem probe_write_back_witness:
  "status (table (snd (checkAllDevices quiet_env two_devices)) ! 0) = ''online''
   \<and> status (table (snd (checkAllDevices quiet_env two_devices)) ! 1) = ''offline''
   \<and> lastSeenAt (table (snd (checkAllDevices quiet_env two_devices)) ! 1) = Some 5
   \<and> table (snd (checkDevice quiet_env two_devices device_B)) =
       [device_A, device_B\<lparr>status := ''offline'', lastCheckedAt := Some 1000\<rparr>]"
proof -
  have hyps: "(\<forall>k t. concurrent quiet_env k t = t) \<and> (\<forall>k. dbFault quiet_env k = None)
      \<and> distinct (map id_col (table two_devices))"
    by (simp add: demo_defs)
  have ok: "dbFault quiet_env (dbCalls two_devices) = None"
    by (simp add: demo_defs)
  note all = probe_write_back[of quiet_env two_devices device_B]
  note body = all[THEN conjunct2, THEN conjunct1, THEN mp, OF ok]
  note rows = all[THEN conjunct2, THEN conjunct2, THEN mp, OF hyps, THEN conjunct2, rule_format]
  have up: "reachable quiet_env (length (execLog two_devices) + 0) (ipAddress (table two_devices ! 0))"
    by (simp add: reachable_def demo_defs)
  have down: "\<not> reachable quiet_env (length (execLog two_devices) + 1) (ipAddress (table two_devices ! 1))"
    by (simp add: reachable_def demo_defs)
  have down': "\<not> reachable quiet_env (length (execLog two_devices)) (ipAddress device_B)"
    by (simp add: reachable_def demo_defs)
  have len: "length (table two_devices) = 2" "lastSeenAt (table two_devices ! 1) = Some 5"
    by (simp_all add: demo_defs)
  from rows[of 0] up len have a: "status (table (snd (checkAllDevices quiet_env two_devices)) ! 0) = ''online''"
    by simp
  from rows[of 1] down len have b: "status (table (snd (checkAllDevices quiet_env two_devices)) ! 1) = ''offline''"
      "lastSeenAt (table (snd (checkAllDevices quiet_env two_devices)) ! 1) = Some 5"
    by simp_all
  from body down' have c: "table (snd (checkDevice quiet_env two_devices device_B)) =
       [device_A, device_B\<lparr>status := ''offline'', lastCheckedAt := Some 1000\<rparr>]"
    by (simp add: demo_defs)
  from a b c show ?thesis by simp
qed

section \<open>Failures during a pass\<close>

text \<open>
  C2, as the specification states it, fails on the code: the loop has no handler of its
  own, so a status write that throws leaves the loop. In the example the write for
  device A fails: device B is neither probed nor written in that pass, and the error is
  logged by the handler of the whole pass.
\<close>

theorem write_failure_counterexample:
  "checkAllDevices failing_write_env two_devices =
    (Inr (), \<lparr>table = [device_A, device_B],
              execLog = [(''ping -c 1 -W 2 192.168.1.10'', 5000)],
              dbCalls = 2, dateCalls = 2,
              console = [''Device monitor error: connection lost'']\<rparr>)"
  by (simp add: pass_defs demo_defs)

text \<open>
  C2, amended. A probe failure never aborts a pass and is not logged. When no database
  statement fails, whatever the probes do, the pass returns normally, logs nothing,
  probes every device of the list it read, in order, and issues one status write per
  device; and (no other handler touching the table, identifiers being a primary key)
  every row has been written back: offline, with \<open>lastCheckedAt\<close> read during the pass
  and \<open>lastSeenAt\<close> kept, when its probe failed, and online, with both timestamps read
  during the pass, when it succeeded. A status write that fails is not isolated to its
  device: when the write for the device at position \<open>n\<close> fails, the pass ends there. The
  error is caught by the single handler of the pass and logged, not thrown; the devices
  up to position \<open>n\<close> have been probed, the devices after it are not probed, and no
  further statement is issued; and (no other handler touching the table) the rows before
  position \<open>n\<close> have been written back as above, while the rows from position \<open>n\<close> on
  are as before the pass.
\<close>

theorem write_failure_ends_pass:
  "(dbFault e (dbCalls w) = None \<and>
    (\<forall>j<length (concurrent e (dbCalls w) (table w)). dbFault e (Suc (dbCalls w) + j) = None) \<longrightarrow>
       fst (checkAllDevices e w) = Inr () \<and>
       execLog (snd (checkAllDevices e w)) =
         execLog w @ map (\<lambda>d. (''ping -c 1 -W 2 '' @ ipAddress d, 5000)) (concurrent e (dbCalls w) (table w)) \<and>
       dbCalls (snd (checkAllDevices e w)) = Suc (dbCalls w) + length (concurrent e (dbCalls w) (table w)) \<and>
       console (snd (checkAllDevices e w)) = console w \<and>
       ((\<forall>k t. concurrent e k t = t) \<and> distinct (map id_col (table w)) \<longrightarrow>
          length (table (snd (checkAllDevices e w))) = length (table w) \<and>
          (\<forall>j<length (table w).
             (same_columns (table w ! j) (table (snd (checkAllDevices e w)) ! j) \<and>
              (reachable e (length (execLog w) + j) (ipAddress (table w ! j)) \<longrightarrow>
                 status (table (snd (checkAllDevices e w)) ! j) = ''online'' \<and>
                 (\<exists>k. dateCalls w \<le> k \<and> Suc k < dateCalls (snd (checkAllDevices e w)) \<and>
                      lastSeenAt (table (snd (checkAllDevices e w)) ! j) = Some (clockAt e k) \<and>
                      lastCheckedAt (table (snd (checkAllDevices e w)) ! j) = Some (clockAt e (Suc k)))) \<and>
              (\<not> reachable e (length (execLog w) + j) (ipAddress (table w ! j)) \<longrightarrow>
                 status (table (snd (checkAllDevices e w)) ! j) = ''offline'' \<and>
                 (\<exists>k. dateCalls w \<le> k \<and> k < dateCalls (snd (checkAllDevices e w)) \<and>
                      lastCheckedAt (table (snd (checkAllDevices e w)) ! j) = Some (clockAt e k)) \<and>
                 lastSeenAt (table (snd (checkAllDevices e w)) ! j) = lastSeenAt (table w ! j))))))
   \<and> (dbFault e (dbCalls w) = None \<and> n < length (concurrent e (dbCalls w) (table w)) \<and>
      (\<forall>j<n. dbFault e (Suc (dbCalls w) + j) = None) \<and>
      dbFault e (Suc (dbCalls w) + n) = Some msg \<longrightarrow>
       fst (checkAllDevices e w) = Inr () \<and>
       execLog (snd (checkAllDevices e w)) =
         execLog w @ map (\<lambda>d. (''ping -c 1 -W 2 '' @ ipAddress d, 5000))
                       (take (Suc n) (concurrent e (dbCalls w) (table w))) \<and>
       dbCalls (snd (checkAllDevices e w)) = dbCalls w + n + 2 \<and>
       console (snd (checkAllDevices e w)) = console w @ [''Device monitor error: '' @ msg] \<and>
       ((\<forall>k t. concurrent e k t = t) \<and> distinct (map id_col (table w)) \<longrightarrow>
          length (table (snd (checkAllDevices e w))) = length (table w) \<and>
          (\<forall>j<n.
             (same_columns (table w ! j) (table (snd (checkAllDevices e w)) ! j) \<and>
              (reachable e (length (execLog w) + j) (ipAddress (table w ! j)) \<longrightarrow>
                 status (table (snd (checkAllDevices e w)) ! j) = ''online'' \<and>
                 (\<exists>k. dateCalls w \<le> k \<and> Suc k < dateCalls (snd (checkAllDevices e w)) \<and>
                      lastSeenAt (table (snd (checkAllDevices e w)) ! j) = Some (clockAt e k) \<and>
                      lastCheckedAt (table (snd (checkAllDevices e w)) ! j) = Some (clockAt e (Suc k)))) \<and>
              (\<not> reachable e (length (execLog w) + j) (ipAddress (table w ! j)) \<longrightarrow>
                 status (table (snd (checkAllDevices e w)) ! j) = ''offline'' \<and>
                 (\<exists>k. dateCalls w \<le> k \<and> k < dateCalls (snd (checkAllDevices e w)) \<and>
                      lastCheckedAt (table (snd (checkAllDevices e w)) ! j) = Some (clockAt e k)) \<and>
                 lastSeenAt (table (snd (checkAllDevices e w)) ! j) = lastSeenAt (table w ! j)))) \<and>
          (\<forall>j. n \<le> j \<and> j < length (table w) \<longrightarrow>
             table (snd (checkAllDevices e w)) ! j = table w ! j)))"
proof -
  have R: "written_row e x ip lo hi r r' \<longleftrightarrow>
     (same_columns r r' \<and>
      (reachable e x ip \<longrightarrow>
         status r' = ''online'' \<and>
         (\<exists>k. lo \<le> k \<and> Suc k < hi \<and> lastSeenAt r' = Some (clockAt e k) \<and>
              lastCheckedAt r' = Some (clockAt e (Suc k)))) \<and>
      (\<not> reachable e x ip \<longrightarrow>
         status r' = ''offline'' \<and>
         (\<exists>k. lo \<le> k \<and> k < hi \<and> lastCheckedAt r' = Some (clockAt e k)) \<and>
         lastSeenAt r' = lastSeenAt r))" for x ip lo hi r r'
    unfolding written_row_def by auto
  let ?T = "concurrent e (dbCalls w) (table w)"
  let ?w' = "snd (checkAllDevices e w)"
  have all_ok: "fst (checkAllDevices e w) = Inr () \<and>
       execLog ?w' = execLog w @ map (\<lambda>d. (''ping -c 1 -W 2 '' @ ipAddress d, 5000)) ?T \<and>
       dbCalls ?w' = Suc (dbCalls w) + length ?T \<and>
       console ?w' = console w \<and>
       ((\<forall>k t. concurrent e k t = t) \<and> distinct (map id_col (table w)) \<longrightarrow>
          length (table ?w') = length (table w) \<and>
          (\<forall>j<length (table w).
             written_row e (length (execLog w) + j) (ipAddress (table w ! j))
               (dateCalls w) (dateCalls ?w') (table w ! j) (table ?w' ! j)))"
    if read: "dbFault e (dbCalls w) = None"
      and ok: "\<forall>j<length ?T. dbFault e (Suc (dbCalls w) + j) = None"
  proof -
    have log: "fst (checkAllDevices e w) = Inr ()"
        "execLog ?w' = execLog w @ map (\<lambda>d. (''ping -c 1 -W 2 '' @ ipAddress d, 5000)) ?T"
        "dbCalls ?w' = Suc (dbCalls w) + length ?T"
        "console ?w' = console w"
      using checkAllDevices_log[OF read ok, of undefined]
      by (simp_all add: checkAllDevices_never_raises)
    have rows: "length (table ?w') = length (table w) \<and>
          (\<forall>j<length (table w).
             written_row e (length (execLog w) + j) (ipAddress (table w ! j))
               (dateCalls w) (dateCalls ?w') (table w ! j) (table ?w' ! j))"
      if quiet: "\<forall>k t. concurrent e k t = t" and dist: "distinct (map id_col (table w))"
    proof -
      have ok': "\<forall>j<length (table w). dbFault e (Suc (dbCalls w) + j) = None"
        using ok quiet by simp
      have stop': "length (table w) = length (table w) \<or>
          (length (table w) < length (table w) \<and> dbFault e (Suc (dbCalls w) + length (table w)) \<noteq> None)"
        by simp
      from checkAllDevices_quiet_rows[OF quiet read ok' stop' dist] show ?thesis
        by simp
    qed
    from log rows show ?thesis by blast
  qed
  have failing: "fst (checkAllDevices e w) = Inr () \<and>
       execLog ?w' = execLog w @ map (\<lambda>d. (''ping -c 1 -W 2 '' @ ipAddress d, 5000)) (take (Suc n) ?T) \<and>
       dbCalls ?w' = dbCalls w + n + 2 \<and>
       console ?w' = console w @ [''Device monitor error: '' @ msg] \<and>
       ((\<forall>k t. concurrent e k t = t) \<and> distinct (map id_col (table w)) \<longrightarrow>
          length (table ?w') = length (table w) \<and>
          (\<forall>j<n.
             written_row e (length (execLog w) + j) (ipAddress (table w ! j))
               (dateCalls w) (dateCalls ?w') (table w ! j) (table ?w' ! j)) \<and>
          (\<forall>j. n \<le> j \<and> j < length (table w) \<longrightarrow> table ?w' ! j = table w ! j))"
    if read: "dbFault e (dbCalls w) = None" and n: "n < length ?T"
      and ok: "\<forall>j<n. dbFault e (Suc (dbCalls w) + j) = None"
      and bad: "dbFault e (Suc (dbCalls w) + n) = Some msg"
  proof -
    have stop: "n = length ?T \<or> (n < length ?T \<and> dbFault e (Suc (dbCalls w) + n) = Some msg)"
      using n bad by simp
    have log: "execLog ?w' =
         execLog w @ map (\<lambda>d. (''ping -c 1 -W 2 '' @ ipAddress d, 5000)) (take (Suc n) ?T)"
       "dbCalls ?w' = dbCalls w + n + 2"
       "console ?w' = console w @ [''Device monitor error: '' @ msg]"
      using checkAllDevices_log[OF read ok stop] n by (simp_all add: min_def)
    have rows: "length (table ?w') = length (table w) \<and>
          (\<forall>j<n.
             written_row e (length (execLog w) + j) (ipAddress (table w ! j))
               (dateCalls w) (dateCalls ?w') (table w ! j) (table ?w' ! j)) \<and>
          (\<forall>j. n \<le> j \<and> j < length (table w) \<longrightarrow> table ?w' ! j = table w ! j)"
      if quiet: "\<forall>k t. concurrent e k t = t" and dist: "distinct (map id_col (table w))"
    proof -
      have nT: "n < length (table w)"
        using n quiet by simp
      have stop': "n = length (table w) \<or> (n < length (table w) \<and> dbFault e (Suc (dbCalls w) + n) \<noteq> None)"
        using nT bad by simp
      from checkAllDevices_quiet_rows[OF quiet read ok stop' dist] nT show ?thesis
        by auto
    qed
    from log rows show ?thesis
      by (simp add: checkAllDevices_never_raises)
  qed
  from all_ok failing show ?thesis
    unfolding R by blast
qed

theorem write_failure_ends_pass_witness:
  "execLog (snd (checkAllDevices quiet_env two_devices)) =
     [(''ping -c 1 -W 2 192.168.1.10'', 5000), (''ping -c 1 -W 2 192.168.1.99'', 5000)]
   \<and> console (snd (checkAllDevices quiet_env two_devices)) = []
   \<and> dbCalls (snd (checkAllDevices quiet_env two_devices)) = 3
   \<and> status (table (snd (checkAllDevices quiet_env two_devices)) ! 0) = ''online''
   \<and> status (table (snd (checkAllDevices quiet_env two_devices)) ! 1) = ''offline''
   \<and> lastSeenAt (table (snd (checkAllDevices quiet_env two_devices)) ! 1) = Some 5
   \<and> execLog (snd (checkAllDevices failing_second_write_env two_devices)) =
     [(''ping -c 1 -W 2 192.168.1.10'', 5000), (''ping -c 1 -W 2 192.168.1.99'', 5000)]
   \<and> console (snd (checkAllDevices failing_second_write_env two_devices)) =
     [''Device monitor error: connection lost'']
   \<and> status (table (snd (checkAllDevices failing_second_write_env two_devices)) ! 0) = ''online''
   \<and> table (snd (checkAllDevices failing_second_write_env two_devices)) ! 1 = device_B"
proof -
  let ?f = failing_second_write_env
  have T: "concurrent quiet_env (dbCalls two_devices) (table two_devices) = [device_A, device_B]"
      "concurrent ?f (dbCalls two_devices) (table two_devices) = [device_A, device_B]"
    by (simp_all add: demo_defs failing_second_write_env_def)
  have good: "dbFault quiet_env (dbCalls two_devices) = None \<and>
    (\<forall>j<length (concurrent quiet_env (dbCalls two_devices) (table two_devices)).
        dbFault quiet_env (Suc (dbCalls two_devices) + j) = None)"
    by (simp add: demo_defs)
  have bad: "dbFault ?f (dbCalls two_devices) = None \<and>
      1 < length (concurrent ?f (dbCalls two_devices) (table two_devices)) \<and>
      (\<forall>j<1. dbFault ?f (Suc (dbCalls two_devices) + j) = None) \<and>
      dbFault ?f (Suc (dbCalls two_devices) + 1) = Some ''connection lost''"
    by (simp add: demo_defs failing_second_write_env_def)
  have quiet: "(\<forall>k t. concurrent quiet_env k t = t) \<and> distinct (map id_col (table two_devices))"
      "(\<forall>k t. concurrent ?f k t = t) \<and> distinct (map id_col (table two_devices))"
    by (simp_all add: demo_defs failing_second_write_env_def)
  have up: "reachable quiet_env (length (execLog two_devices) + 0) (ipAddress (table two_devices ! 0))"
      "reachable ?f (length (execLog two_devices) + 0) (ipAddress (table two_devices ! 0))"
    by (simp_all add: reachable_def demo_defs failing_second_write_env_def)
  have down: "\<not> reachable quiet_env (length (execLog two_devices) + 1) (ipAddress (table two_devices ! 1))"
    by (simp add: reachable_def demo_defs)
  have len: "length (table two_devices) = 2" "lastSeenAt (table two_devices ! 1) = Some 5"
      "table two_devices ! 1 = device_B"
    by (simp_all add: demo_defs)
  note a = write_failure_ends_pass[of quiet_env two_devices 1 "''connection lost''",
      THEN conjunct1, THEN mp, OF good]
  note b = write_failure_ends_pass[of ?f two_devices 1 "''connection lost''",
      THEN conjunct2, THEN mp, OF bad]
  note a_rows = a[THEN conjunct2, THEN conjunct2, THEN conjunct2, THEN conjunct2, THEN mp,
      OF quiet(1), THEN conjunct2, rule_format]
  note b_all = b[THEN conjunct2, THEN conjunct2, THEN conjunct2, THEN conjunct2, THEN mp, OF quiet(2)]
  note b_rows = b_all[THEN conjunct2, THEN conjunct1, rule_format]
  note b_rest = b_all[THEN conjunct2, THEN conjunct2, rule_format]
  from a_rows[of 0] up len
  have a0: "status (table (snd (checkAllDevices quiet_env two_devices)) ! 0) = ''online''"
    by simp
  from a_rows[of 1] down len
  have a1: "status (table (snd (checkAllDevices quiet_env two_devices)) ! 1) = ''offline''"
      "lastSeenAt (table (snd (checkAllDevices quiet_env two_devices)) ! 1) = Some 5"
    by simp_all
  from b_rows[of 0] up
  have b0: "status (table (snd (checkAllDevices ?f two_devices)) ! 0) = ''online''"
    by simp
  from b_rest[of 1] len
  have b1: "table (snd (checkAllDevices ?f two_devices)) ! 1 = device_B"
    by simp
  from a b a0 a1 b0 b1 show ?thesis
    unfolding T by (simp add: demo_defs)
qed

section \<open>The lifecycle of the monitor\<close>

lemmas monitor_defs = startDeviceMonitor_def stopDeviceMonitor_def setInterval_def
  clearInterval_def call_checkAllDevices_def console_log_def MONITOR_INTERVAL_def Let_def

lemma one_timer_loaded: "one_timer loaded"
  by (simp add: one_timer_def loaded_def)

lemma one_timer_fire: "one_timer rt \<Longrightarrow> one_timer (fire rt ev)"
  by (cases ev) (auto simp: one_timer_def monitor_defs split: option.splits)

lemma one_timer_run: "one_timer rt \<Longrightarrow> one_timer (run_events rt evs)"
  unfolding run_events_def
  by (induction evs arbitrary: rt) (simp_all add: one_timer_fire)

lemma run_events_Cons: "run_events rt (ev # evs) = run_events (fire rt ev) evs"
  by (simp add: run_events_def)

lemma run_events_Nil: "run_events rt [] = rt"
  by (simp add: run_events_def)

lemma well_spaced_inFlight:
  "inFlight rt \<le> 1 \<Longrightarrow> well_spaced rt evs \<Longrightarrow> inFlight (run_events rt evs) \<le> 1"
proof (induction evs arbitrary: rt)
  case Nil
  then show ?case by (simp add: run_events_Nil)
next
  case (Cons ev evs)
  from Cons.prems have sp: "starts_pass rt ev \<longrightarrow> inFlight rt = 0"
    and rest: "well_spaced (fire rt ev) evs"
    by simp_all
  have "inFlight (fire rt ev) \<le> 1"
    using sp Cons.prems(1)
    by (cases ev) (auto simp: monitor_defs split: option.splits)
  from Cons.IH[OF this rest] show ?case
    by (simp add: run_events_Cons)
qed

text \<open>
  C7. The lifecycle is a machine with the two states Stopped (\<open>monitorInterval\<close> is
  \<open>null\<close>) and Running, in every runtime that the events can reach from the loaded
  module. From Stopped, \<open>start\<close> moves to Running, calls \<open>checkAllDevices\<close> at once (one
  more pass started and in flight) and arms one interval timer with period 60000 ms, and
  \<open>stop\<close> changes nothing. From Running, \<open>start\<close> changes nothing; the one armed timer has
  period 60000 ms and starts a pass each time it fires; \<open>stop\<close> moves to Stopped and
  disarms the timer, so that no later tick has any effect, and leaves the passes in
  flight as they are. At most one timer is armed at any time.
\<close>

theorem monitor_lifecycle:
  "(lifecycle_of (run_events loaded evs) = Stopped \<longrightarrow>
      lifecycle_of (startDeviceMonitor (run_events loaded evs)) = Running \<and>
      passesStarted (startDeviceMonitor (run_events loaded evs)) = Suc (passesStarted (run_events loaded evs)) \<and>
      inFlight (startDeviceMonitor (run_events loaded evs)) = Suc (inFlight (run_events loaded evs)) \<and>
      monitorInterval (startDeviceMonitor (run_events loaded evs)) = Some (nextHandle (run_events loaded evs)) \<and>
      timers (startDeviceMonitor (run_events loaded evs)) = [(nextHandle (run_events loaded evs), 60000)] \<and>
      stopDeviceMonitor (run_events loaded evs) = run_events loaded evs)
   \<and> (lifecycle_of (run_events loaded evs) = Running \<longrightarrow>
      startDeviceMonitor (run_events loaded evs) = run_events loaded evs \<and>
      (\<exists>h. timers (run_events loaded evs) = [(h, 60000)] \<and>
           passesStarted (fire (run_events loaded evs) (Tick h)) = Suc (passesStarted (run_events loaded evs))) \<and>
      lifecycle_of (stopDeviceMonitor (run_events loaded evs)) = Stopped \<and>
      timers (stopDeviceMonitor (run_events loaded evs)) = [] \<and>
      (\<forall>h. fire (stopDeviceMonitor (run_events loaded evs)) (Tick h) = stopDeviceMonitor (run_events loaded evs)) \<and>
      inFlight (stopDeviceMonitor (run_events loaded evs)) = inFlight (run_events loaded evs) \<and>
      passesStarted (stopDeviceMonitor (run_events loaded evs)) = passesStarted (run_events loaded evs))
   \<and> length (timers (run_events loaded evs)) \<le> 1"
proof -
  define rt where "rt = run_events loaded evs"
  have inv: "timers rt = (case monitorInterval rt of None \<Rightarrow> [] | Some h \<Rightarrow> [(h, MONITOR_INTERVAL)])"
    using one_timer_run[OF one_timer_loaded, of evs] by (simp add: one_timer_def rt_def)
  have stopped: "lifecycle_of (startDeviceMonitor rt) = Running \<and>
      passesStarted (startDeviceMonitor rt) = Suc (passesStarted rt) \<and>
      inFlight (startDeviceMonitor rt) = Suc (inFlight rt) \<and>
      monitorInterval (startDeviceMonitor rt) = Some (nextHandle rt) \<and>
      timers (startDeviceMonitor rt) = [(nextHandle rt, 60000)] \<and>
      stopDeviceMonitor rt = rt"
    if "lifecycle_of rt = Stopped"
  proof -
    from that have "monitorInterval rt = None"
      by (simp add: lifecycle_of_def split: if_splits)
    with inv show ?thesis
      by (simp add: lifecycle_of_def monitor_defs)
  qed
  have running: "startDeviceMonitor rt = rt \<and>
      (\<exists>h. timers rt = [(h, 60000)] \<and>
           passesStarted (fire rt (Tick h)) = Suc (passesStarted rt)) \<and>
      lifecycle_of (stopDeviceMonitor rt) = Stopped \<and>
      timers (stopDeviceMonitor rt) = [] \<and>
      (\<forall>h. fire (stopDeviceMonitor rt) (Tick h) = stopDeviceMonitor rt) \<and>
      inFlight (stopDeviceMonitor rt) = inFlight rt \<and>
      passesStarted (stopDeviceMonitor rt) = passesStarted rt"
    if "lifecycle_of rt = Running"
  proof -
    from that obtain h where "monitorInterval rt = Some h"
      by (auto simp: lifecycle_of_def split: if_splits)
    with inv show ?thesis
      by (simp add: lifecycle_of_def monitor_defs)
  qed
  have "length (timers rt) \<le> 1"
    using inv by (simp split: option.splits)
  with stopped running show ?thesis
    unfolding rt_def by blast
qed

theorem monitor_lifecycle_witness:
  "lifecycle_of (run_events loaded []) = Stopped
   \<and> lifecycle_of (run_events loaded [Start]) = Running
   \<and> timers (run_events loaded [Start, Start]) = [(0, 60000)]
   \<and> passesStarted (run_events loaded [Start, Start]) = 1
   \<and> timers (run_events loaded [Start, Stop, Stop]) = []
   \<and> inFlight (run_events loaded [Start, Stop, Stop]) = 1"
proof -
  have s0: "lifecycle_of (run_events loaded []) = Stopped"
    by (simp add: run_events_def loaded_def lifecycle_of_def)
  note at0 = monitor_lifecycle[of "[]", THEN conjunct1, THEN mp, OF s0]
  have r1: "run_events loaded [Start] = startDeviceMonitor (run_events loaded [])"
    by (simp add: run_events_def)
  have s1: "lifecycle_of (run_events loaded [Start]) = Running"
    using at0 r1 by simp
  note at1 = monitor_lifecycle[of "[Start]", THEN conjunct2, THEN conjunct1, THEN mp, OF s1]
  have r2: "run_events loaded [Start, Start] = startDeviceMonitor (run_events loaded [Start])"
      "run_events loaded [Start, Stop] = stopDeviceMonitor (run_events loaded [Start])"
    by (simp_all add: run_events_def)
  have t2: "timers (run_events loaded [Start, Start]) = [(0, 60000)]"
      "passesStarted (run_events loaded [Start, Start]) = 1"
    using at0 at1 r1 r2 by (simp_all add: run_events_def loaded_def)
  have s2: "lifecycle_of (run_events loaded [Start, Stop]) = Stopped"
    using at1 r2 by simp
  note at2 = monitor_lifecycle[of "[Start, Stop]", THEN conjunct1, THEN mp, OF s2]
  have r3: "run_events loaded [Start, Stop, Stop] = stopDeviceMonitor (run_events loaded [Start, Stop])"
    by (simp add: run_events_def)
  have t3: "timers (run_events loaded [Start, Stop, Stop]) = []"
      "inFlight (run_events loaded [Start, Stop, Stop]) = 1"
    using at0 at1 at2 r1 r2 r3 by (simp_all add: run_events_def loaded_def)
  from s0 s1 t2 t3 show ?thesis by simp
qed

section \<open>Ticks while a pass is in flight\<close>

text \<open>
  C3, as the specification states it, fails on the code: \<open>setInterval\<close> calls
  \<open>checkAllDevices\<close> at every tick, and neither function looks at whether a pass is in
  flight. After \<open>start\<close> one pass is in flight; when the timer fires before that pass has
  settled, a second pass runs beside it.
\<close>

theorem overlapping_passes_counterexample:
  "inFlight (run_events loaded [Start]) = 1
   \<and> timers (run_events loaded [Start]) = [(0, 60000)]
   \<and> inFlight (run_events loaded [Start, Tick 0]) = 2"
  by (simp add: run_events_def loaded_def monitor_defs)

text \<open>
  C3, amended. A tick of the armed timer always starts a new pass, whether or not one is
  in flight: the tick is neither skipped nor queued. Two passes are never in flight
  together in the executions where every pass has settled before the next one is started
  (by a tick, or by \<open>start\<close> from Stopped).
\<close>

theorem ticks_are_not_guarded:
  "(h \<in> fst ` set (timers rt) \<longrightarrow>
      inFlight (fire rt (Tick h)) = Suc (inFlight rt) \<and>
      passesStarted (fire rt (Tick h)) = Suc (passesStarted rt))
   \<and> (well_spaced loaded evs \<longrightarrow> inFlight (run_events loaded evs) \<le> 1)"
  using well_spaced_inFlight[of loaded evs]
  by (simp add: call_checkAllDevices_def loaded_def)

theorem ticks_are_not_guarded_witness:
  "inFlight (fire (run_events loaded [Start]) (Tick 0)) = Suc (inFlight (run_events loaded [Start]))
   \<and> inFlight (run_events loaded [Start, Settle, Tick 0, Settle, Tick 0]) \<le> 1"
proof -
  have armed: "0 \<in> fst ` set (timers (run_events loaded [Start]))"
    by (simp add: run_events_def loaded_def monitor_defs)
  have spaced: "well_spaced loaded [Start, Settle, Tick 0, Settle, Tick 0]"
    by (simp add: loaded_def monitor_defs)
  from ticks_are_not_guarded[of 0 "run_events loaded [Start]" "[Start, Settle, Tick 0, Settle, Tick 0]"]
    armed spaced
  show ?thesis by blast
qed

section \<open>The device API and the columns of the monitor\<close>

lemma monitor_columns_set_updates: "monitor_columns (set_updates p r) = monitor_columns r"
  by (simp add: monitor_columns_def set_updates_def)

lemma monitor_columns_new_row: "monitor_columns (new_row i ins) = (''unknown'', None, None)"
  by (simp add: monitor_columns_def new_row_def)

lemma map_monitor_columns_update:
  "map monitor_columns (map (\<lambda>r. if id_col r = i then set_updates p r else r) t) = map monitor_columns t"
  by (induction t) (simp_all add: monitor_columns_set_updates)

lemma post_device_table:
  assumes quiet: "\<forall>k t. concurrent e k t = t"
  shows "table (snd (post_device e w body)) = table w \<or>
     (\<exists>ins. insertDeviceSchema body = Some ins \<and>
        post_device e w body = (Success (Some (new_row (newId e (dbCalls w)) ins)),
           w\<lparr>table := table w @ [new_row (newId e (dbCalls w)) ins], dbCalls := Suc (dbCalls w)\<rparr>))"
proof (cases "insertDeviceSchema body")
  case None
  then show ?thesis by (simp add: post_device_def)
next
  case (Some ins)
  show ?thesis
  proof (cases "dbFault e (dbCalls w)")
    case None
    with Some quiet show ?thesis
      by (simp add: post_device_def createDevice_def dbQuery_ok first_row_def)
  next
    case (Some msg)
    with quiet show ?thesis
      by (simp add: post_device_def createDevice_def dbQuery_fault console_error_def split: option.splits)
  qed
qed

lemma patch_device_columns:
  assumes quiet: "\<forall>k t. concurrent e k t = t"
  shows "map monitor_columns (table (snd (patch_device e w i body))) = map monitor_columns (table w)"
proof (cases "partialSchema body")
  case None
  then show ?thesis by (simp add: patch_device_def)
next
  case (Some p)
  show ?thesis
  proof (cases "dbFault e (dbCalls w)")
    case (Some msg)
    with \<open>partialSchema body = Some p\<close> quiet show ?thesis
      by (simp add: patch_device_def getDevice_def dbQuery_fault console_error_def)
  next
    case None
    define w1 where "w1 = w\<lparr>table := table w, dbCalls := Suc (dbCalls w)\<rparr>"
    have get: "getDevice e w i = (Inr (first_row (filter (\<lambda>r. id_col r = i) (table w))), w1)"
      using None quiet by (simp add: getDevice_def dbQuery_ok w1_def)
    have upd: "map monitor_columns (table (snd (updateDevice e w1 i p))) = map monitor_columns (table w)"
      using quiet
      by (cases "dbFault e (dbCalls w1)")
         (simp_all add: updateDevice_def dbQuery_ok dbQuery_fault sql_update_def
            map_monitor_columns_update monitor_columns_set_updates w1_def)
    show ?thesis
      using \<open>partialSchema body = Some p\<close> get upd
      by (auto simp: patch_device_def console_error_def w1_def split: option.splits prod.splits sum.splits)
  qed
qed

lemma handle_columns:
  assumes quiet: "\<forall>k t. concurrent e k t = t"
  shows "\<exists>n. map monitor_columns (table (snd (handle e w rq))) =
           map monitor_columns (table w) @ replicate n (''unknown'', None, None)"
proof (cases rq)
  case (Post body)
  from post_device_table[OF quiet, of w body] show ?thesis
  proof
    assume "table (snd (post_device e w body)) = table w"
    with Post show ?thesis by (intro exI[of _ 0]) simp
  next
    assume "\<exists>ins. insertDeviceSchema body = Some ins \<and>
        post_device e w body = (Success (Some (new_row (newId e (dbCalls w)) ins)),
           w\<lparr>table := table w @ [new_row (newId e (dbCalls w)) ins], dbCalls := Suc (dbCalls w)\<rparr>)"
    with Post show ?thesis
      by (intro exI[of _ 1]) (auto simp: monitor_columns_new_row)
  qed
next
  case (Patch i body)
  with patch_device_columns[OF quiet, of w i body] show ?thesis
    by (intro exI[of _ 0]) simp
qed

lemma handle_all_columns:
  assumes quiet: "\<forall>k t. concurrent e k t = t"
  shows "\<exists>n. map monitor_columns (table (handle_all e w rqs)) =
           map monitor_columns (table w) @ replicate n (''unknown'', None, None)"
proof (induction rqs arbitrary: w)
  case Nil
  show ?case by (intro exI[of _ 0]) simp
next
  case (Cons rq rqs)
  from handle_columns[OF quiet, of w rq] obtain n where
    n: "map monitor_columns (table (snd (handle e w rq))) =
           map monitor_columns (table w) @ replicate n (''unknown'', None, None)"
    by blast
  from Cons.IH[of "snd (handle e w rq)"] obtain m where
    m: "map monitor_columns (table (handle_all e (snd (handle e w rq)) rqs)) =
           map monitor_columns (table (snd (handle e w rq))) @ replicate m (''unknown'', None, None)"
    by blast
  show ?case
    using n m by (intro exI[of _ "n + m"]) (simp add: replicate_add)
qed

lemma insertDeviceSchema_members:
  assumes "\<forall>k\<in>set [''name'', ''ipAddress'', ''macAddress'', ''deviceType'', ''os'', ''description''].
             json_member kvs k = json_member kvs' k"
  shows "insertDeviceSchema (JObject kvs) = insertDeviceSchema (JObject kvs')"
  using assms by simp

lemma partialSchema_members:
  assumes "\<forall>k\<in>set [''name'', ''ipAddress'', ''macAddress'', ''deviceType'', ''os'', ''description''].
             json_member kvs k = json_member kvs' k"
  shows "partialSchema (JObject kvs) = partialSchema (JObject kvs')"
  using assms by simp

lemmas api_defs = post_device_def patch_device_def createDevice_def updateDevice_def
  getDevice_def dbQuery_def sql_update_def set_updates_def new_row_def or_default_def
  first_row_def json_member_def ipv4_format_def mac_format_def is_digit_def is_hex_def
  z_partial_def Let_def

text \<open>
  C9. A create or an edit request cannot set the status, \<open>lastSeenAt\<close> or
  \<open>lastCheckedAt\<close>. The schemas read only the keys name, ipAddress, macAddress,
  deviceType, os and description of the body: two bodies that agree on these parse to the
  same result, so a \<open>status\<close> key is without effect. While nothing else writes the table
  (in particular no pass of the monitor): a create request that is accepted appends one
  row with status \<open>"unknown"\<close> and both timestamps unset; an edit request leaves the three
  columns of every row as they are; and after any sequence of create and edit requests
  the three columns of the old rows are unchanged and every new row is still
  \<open>"unknown"\<close> and unset.
\<close>

theorem api_never_sets_status:
  "((\<forall>k\<in>set [''name'', ''ipAddress'', ''macAddress'', ''deviceType'', ''os'', ''description''].
        json_member kvs k = json_member kvs' k) \<longrightarrow>
      insertDeviceSchema (JObject kvs) = insertDeviceSchema (JObject kvs') \<and>
      partialSchema (JObject kvs) = partialSchema (JObject kvs'))
   \<and> ((\<forall>k t. concurrent e k t = t) \<longrightarrow>
        (\<forall>dev w'. post_device e w body = (Success dev, w') \<longrightarrow>
           (\<exists>r. dev = Some r \<and> status r = ''unknown'' \<and> lastSeenAt r = None \<and>
                lastCheckedAt r = None \<and> table w' = table w @ [r])) \<and>
        map monitor_columns (table (snd (patch_device e w i body))) = map monitor_columns (table w) \<and>
        (\<exists>n. map monitor_columns (table (handle_all e w rqs)) =
              map monitor_columns (table w) @ replicate n (''unknown'', None, None)))"
proof -
  have schema: "insertDeviceSchema (JObject kvs) = insertDeviceSchema (JObject kvs') \<and>
      partialSchema (JObject kvs) = partialSchema (JObject kvs')"
    if "\<forall>k\<in>set [''name'', ''ipAddress'', ''macAddress'', ''deviceType'', ''os'', ''description''].
        json_member kvs k = json_member kvs' k"
    using insertDeviceSchema_members[OF that] partialSchema_members[OF that] by simp
  have post: "\<exists>r. dev = Some r \<and> status r = ''unknown'' \<and> lastSeenAt r = None \<and>
                lastCheckedAt r = None \<and> table w' = table w @ [r]"
    if quiet: "\<forall>k t. concurrent e k t = t" and ok: "post_device e w body = (Success dev, w')"
      for dev w'
  proof (cases "insertDeviceSchema body")
    case None
    with ok show ?thesis by (simp add: post_device_def)
  next
    case (Some ins)
    show ?thesis
    proof (cases "dbFault e (dbCalls w)")
      case None
      with \<open>insertDeviceSchema body = Some ins\<close> quiet ok show ?thesis
        by (auto simp: post_device_def createDevice_def dbQuery_ok first_row_def new_row_def)
    next
      case (Some msg)
      with \<open>insertDeviceSchema body = Some ins\<close> ok show ?thesis
        by (simp add: post_device_def createDevice_def dbQuery_fault)
    qed
  qed
  from schema post patch_device_columns handle_all_columns show ?thesis
    by blast
qed

theorem api_never_sets_status_witness:
  "(\<exists>r w'. post_device quiet_env two_devices post_with_status = (Success (Some r), w')
       \<and> name r = ''C'' \<and> status r = ''unknown'' \<and> table w' = [device_A, device_B, r])
   \<and> map status (table (snd (patch_device quiet_env two_devices ''b'' patch_with_status))) =
        [''unknown'', ''online'']
   \<and> map name (table (snd (patch_device quiet_env two_devices ''b'' patch_with_status))) =
        [''A'', ''Z'']
   \<and> insertDeviceSchema post_with_status =
       insertDeviceSchema (JObject [(''name'', JString ''C''), (''ipAddress'', JString ''10.0.0.7'')])"
proof -
  have quiet: "\<forall>k t. concurrent quiet_env k t = t"
    by (simp add: quiet_env_def)
  have same: "\<forall>k\<in>set [''name'', ''ipAddress'', ''macAddress'', ''deviceType'', ''os'', ''description''].
      json_member [(''name'', JString ''C''), (''ipAddress'', JString ''10.0.0.7''), (''status'', JString ''online'')] k
      = json_member [(''name'', JString ''C''), (''ipAddress'', JString ''10.0.0.7'')] k"
    by (simp add: json_member_def)
  note all = api_never_sets_status[of
      "[(''name'', JString ''C''), (''ipAddress'', JString ''10.0.0.7''), (''status'', JString ''online'')]"
      "[(''name'', JString ''C''), (''ipAddress'', JString ''10.0.0.7'')]"
      quiet_env two_devices post_with_status "''b''" "[]"]
  note schema = all[THEN conjunct1, THEN mp, OF same, THEN conjunct1]
  note post = all[THEN conjunct2, THEN mp, OF quiet, THEN conjunct1, rule_format]
  note patch = api_never_sets_status[of "[]" "[]" quiet_env two_devices patch_with_status "''b''" "[]",
      THEN conjunct2, THEN mp, OF quiet, THEN conjunct2, THEN conjunct1]
  obtain dev w' where run: "post_device quiet_env two_devices post_with_status = (dev, w')"
    by (cases "post_device quiet_env two_devices post_with_status")
  have accepted: "dev = Success (Some (new_row ''fresh''
       \<lparr>in_name = ''C'', in_ipAddress = ''10.0.0.7'', in_macAddress = Absent,
        in_deviceType = Absent, in_os = Absent, in_description = Absent\<rparr>))"
    using run by (simp add: api_defs post_with_status_def demo_defs)
  with run post obtain r where r: "post_device quiet_env two_devices post_with_status = (Success (Some r), w')"
      "status r = ''unknown''" "table w' = table two_devices @ [r]"
      "r = new_row ''fresh''
       \<lparr>in_name = ''C'', in_ipAddress = ''10.0.0.7'', in_macAddress = Absent,
        in_deviceType = Absent, in_os = Absent, in_description = Absent\<rparr>"
    by blast
  then have first: "\<exists>r w'. post_device quiet_env two_devices post_with_status = (Success (Some r), w')
       \<and> name r = ''C'' \<and> status r = ''unknown'' \<and> table w' = [device_A, device_B, r]"
    by (intro exI[of _ r] exI[of _ w']) (simp add: new_row_def two_devices_def)
  have cols: "map monitor_columns (table two_devices) = [(''unknown'', None, None), (''online'', Some 5, Some 7)]"
    by (simp add: demo_defs monitor_columns_def)
  have st: "map status t = map fst (map monitor_columns t)" for t
    by (simp add: monitor_columns_def comp_def)
  have second: "map status (table (snd (patch_device quiet_env two_devices ''b'' patch_with_status))) =
        [''unknown'', ''online'']"
    unfolding st patch cols by simp
  have third: "map name (table (snd (patch_device quiet_env two_devices ''b'' patch_with_status))) =
        [''A'', ''Z'']"
    by (simp add: api_defs patch_with_status_def demo_defs)
  from first second third schema show ?thesis
    by (simp add: post_with_status_def)
qed

end
